theory Spec2Isabelle
  imports Main "HOL-Library.Sublist" "HOL-Library.Multiset" "HOL-Library.Char_ord" "HOL-Library.List_Lexorder"
begin

section \<open>Text\<close>

text \<open>
  Python \<open>str\<close> values are modelled as \<^typ>\<open>string\<close>, one \<^typ>\<open>char\<close> per code point; the
  model covers the code points below 256. Comparison of strings is lexicographic on the
  code points, as in Python.
\<close>

definition nl :: char where
  \<open>nl = CHR 0x0A\<close>

text \<open>\<open>needle in hay\<close> for strings: \<open>needle\<close> occurs in \<open>hay\<close> as a contiguous block.\<close>

fun str_in :: "string \<Rightarrow> string \<Rightarrow> bool" where
  "str_in needle [] = (needle = [])"
| "str_in needle (c # cs) = (prefix needle (c # cs) \<or> str_in needle cs)"

text \<open>\<open>sep.join(xs)\<close>\<close>

fun join :: "string \<Rightarrow> string list \<Rightarrow> string" where
  "join sep [] = []"
| "join sep [x] = x"
| "join sep (x # y # ys) = x @ sep @ join sep (y # ys)"

section \<open>Errors\<close>

text \<open>
  The exceptions the hooks raise or let through. \<open>OSError\<close> stands for the failures of
  the file operations (\<open>FileNotFoundError\<close>, \<open>FileExistsError\<close>, \<open>NotADirectoryError\<close>,
  \<open>IsADirectoryError\<close>, \<open>shutil.Error\<close>), with the path at which the operation failed;
  the hooks catch none of them.
\<close>

datatype error =
    Exception string
  | AttributeError
  | TypeError
  | ValueError
  | KeyError string
  | OSError "string list"

text \<open>A statement after another: an exception ends the run.\<close>

definition seq :: "error + 'a \<Rightarrow> ('a \<Rightarrow> error + 'b) \<Rightarrow> error + 'b" where
  "seq r f = (case r of Inl e \<Rightarrow> Inl e | Inr x \<Rightarrow> f x)"

fun for_each :: "('a \<Rightarrow> 's \<Rightarrow> error + 's) \<Rightarrow> 'a list \<Rightarrow> 's \<Rightarrow> error + 's" where
  "for_each body [] s = Inr s"
| "for_each body (x # xs) s = seq (body x s) (for_each body xs)"

section \<open>Banner Injector (add-checklists-banner.py)\<close>

definition checklists_banner :: string where
  \<open>checklists_banner =
     [nl] @ ''!!! info "Checklists Updated (June 2025)"'' @ [nl] @
     ''    The checklists now include **all MASTG tests**, as well as updated mappings to the new [MAS profiles](https://mas.owasp.org/MASTG/0x03b-Testing-Profiles/).'' @ [nl]\<close>

text \<open>\<open>on_page_markdown(markdown, page)\<close>, with \<open>path = page.file.src_uri\<close>.\<close>

definition on_page_markdown_banner :: "string \<Rightarrow> string \<Rightarrow> string" where
  "on_page_markdown_banner markdown path =
     (if str_in ''checklists/MASVS-'' path
      then [nl] @ checklists_banner @ [nl, nl] @ markdown
      else markdown)"

section \<open>Terminology Linker (resolve_terms.py)\<close>

text \<open>
  A value of the front matter of a term page, as YAML gives it: nothing (\<open>None\<close>, also for
  a missing key), a text, or a value of another type (a number, a boolean, a date, a list,
  a mapping), of which the model keeps the truth value and the text that formatting gives.
  Texts have the method \<open>lower\<close>; the values of the other types have not.
\<close>

datatype front_value = Null | Text string | NonText bool string

text \<open>
  A term record as \<open>get_terms\<close> builds it. The title is the value of the front matter. The
  URL is the text \<open>"/" + rel_path_no_ext + "/"\<close> that \<open>get_terms\<close> builds from the path of
  the page; the record keeps \<open>rel_path_no_ext\<close>. The hook uses a reference URL only for its
  truth value and its formatted text, so a reference URL that is no text is represented by
  its formatted text when it is true and by \<open>None\<close> when it is false. The index is a
  dictionary in insertion order, modelled as an association list with distinct keys.
\<close>

record term_record =
  rel_path_no_ext :: string
  title :: front_value
  nist_url :: "string option"
  cwe_url :: "string option"

definition url :: "term_record \<Rightarrow> string" where
  "url t = ''/'' @ rel_path_no_ext t @ ''/''"

type_synonym term_index = "(string \<times> term_record) list"

text \<open>
  A path (\<open>pathlib.Path\<close>) is the list of its components, relative to the working
  directory of the build.
\<close>

type_synonym path = "string list"

text \<open>
  The part of the build configuration the hooks use: \<open>config['extra']\<close>, where the Merger
  records the repository locations, and \<open>config['terms']\<close>, the term index. \<open>None\<close> is a
  missing key. A value recorded in \<open>config['extra']\<close> is a path or \<open>None\<close>.
\<close>

record config =
  extra :: "(string \<rightharpoonup> path option) option"
  terms :: "term_index option"

text \<open>Python truth value of a value that is \<open>None\<close> or a string.\<close>

definition truthy :: "string option \<Rightarrow> bool" where
  "truthy v = (case v of None \<Rightarrow> False | Some s \<Rightarrow> s \<noteq> [])"

text \<open>A value inside an f-string: \<open>None\<close> is printed as the word.\<close>

definition fmt :: "string option \<Rightarrow> string" where
  "fmt v = (case v of None \<Rightarrow> ''None'' | Some s \<Rightarrow> s)"

text \<open>The same for a value of the front matter, and \<open>v or ""\<close>.\<close>

definition truthy_value :: "front_value \<Rightarrow> bool" where
  "truthy_value v = (case v of Null \<Rightarrow> False | Text s \<Rightarrow> s \<noteq> [] | NonText b s \<Rightarrow> b)"

definition fmt_value :: "front_value \<Rightarrow> string" where
  "fmt_value v = (case v of Null \<Rightarrow> ''None'' | Text s \<Rightarrow> s | NonText b s \<Rightarrow> s)"

definition or_empty :: "front_value \<Rightarrow> front_value" where
  "or_empty v = (if truthy_value v then v else Text [])"

text \<open>\<open>str.lower()\<close> on the code points below 256.\<close>

definition lower_char :: "char \<Rightarrow> char" where
  "lower_char c =
     (let n = (of_char c :: nat)
      in if (65 \<le> n \<and> n \<le> 90) \<or> (192 \<le> n \<and> n \<le> 222 \<and> n \<noteq> 215) then char_of (n + 32) else c)"

definition lower :: "string \<Rightarrow> string" where
  "lower s = map lower_char s"

text \<open>\<open>os.path.basename\<close> and \<open>os.path.splitext\<close> (POSIX).\<close>

definition basename :: "string \<Rightarrow> string" where
  "basename p = rev (takeWhile (\<lambda>c. c \<noteq> CHR ''/'') (rev p))"

text \<open>
  The extension starts at the last dot of the file name, unless only dots precede that dot
  in the file name (the leading dots of a hidden file are no extension).
\<close>

definition splitext :: "string \<Rightarrow> string \<times> string" where
  "splitext p =
     (let r = dropWhile (\<lambda>c. c = CHR ''.'') (basename p)
      in if CHR ''.'' \<in> set r
         then (let ext = CHR ''.'' # rev (takeWhile (\<lambda>c. c \<noteq> CHR ''.'') (rev r))
               in (take (length p - length ext) p, ext))
         else (p, []))"

text \<open>
  \<open>re.compile(r"^.*terms/MASTG-TERM-\d{4}.md").match(path)\<close>: the unescaped dot of the
  pattern stands for any character but a newline, as do the characters of \<open>.*\<close>; nothing
  anchors the end.
\<close>

definition is_digit :: "char \<Rightarrow> bool" where
  "is_digit c = (48 \<le> (of_char c :: nat) \<and> (of_char c :: nat) \<le> 57)"

fun strip_prefix :: "string \<Rightarrow> string \<Rightarrow> string option" where
  "strip_prefix [] s = Some s"
| "strip_prefix (p # ps) [] = None"
| "strip_prefix (p # ps) (c # cs) = (if p = c then strip_prefix ps cs else None)"

definition term_page_here :: "string \<Rightarrow> bool" where
  "term_page_here s =
     (case strip_prefix ''terms/MASTG-TERM-'' s of
        None \<Rightarrow> False
      | Some r \<Rightarrow>
          (case r of
             d1 # d2 # d3 # d4 # c # m # d # _ \<Rightarrow>
               is_digit d1 \<and> is_digit d2 \<and> is_digit d3 \<and> is_digit d4 \<and> c \<noteq> nl \<and>
               m = CHR ''m'' \<and> d = CHR ''d''
           | _ \<Rightarrow> False))"

fun term_page_match :: "string \<Rightarrow> bool" where
  "term_page_match [] = term_page_here []"
| "term_page_match (c # cs) = (term_page_here (c # cs) \<or> (c \<noteq> nl \<and> term_page_match cs))"

text \<open>\<open>v.lower()\<close>: only a text has the method.\<close>

definition lower_value :: "front_value \<Rightarrow> error + string" where
  "lower_value v = (case v of Text s \<Rightarrow> Inr (lower s) | _ \<Rightarrow> Inl AttributeError)"

text \<open>
  \<open>sorted(xs, key=f)\<close>: the keys of all the elements are computed first, in the order of
  the list; then the list is sorted by them. \<open>sorted\<close> is stable, as \<^const>\<open>sort_key\<close> is.
\<close>

fun keyed :: "('a \<Rightarrow> error + 'k) \<Rightarrow> 'a list \<Rightarrow> error + ('k \<times> 'a) list" where
  "keyed f [] = Inr []"
| "keyed f (x # xs) = seq (f x) (\<lambda>k. seq (keyed f xs) (\<lambda>ks. Inr ((k, x) # ks)))"

definition sorted_by :: "('a \<Rightarrow> error + 'k :: linorder) \<Rightarrow> 'a list \<Rightarrow> error + 'a list" where
  "sorted_by f xs = seq (keyed f xs) (\<lambda>ks. Inr (map snd (sort_key fst ks)))"

definition format_link :: "term_record \<Rightarrow> string" where
  "format_link t = ''['' @ fmt_value (title t) @ '']('' @ url t @ '')''"

definition sort_title :: "term_record \<Rightarrow> error + string" where
  "sort_title t = lower_value (or_empty (title t))"

definition has_title_and_url :: "term_record \<Rightarrow> bool" where
  "has_title_and_url t = (truthy_value (title t) \<and> url t \<noteq> [])"

text \<open>
  \<open>config.get("terms", {})\<close>
\<close>

definition get_terms_or_empty :: "config \<Rightarrow> term_index" where
  "get_terms_or_empty config = (case terms config of None \<Rightarrow> [] | Some ts \<Rightarrow> ts)"

text \<open>\<open>on_page_markdown(markdown, page, config)\<close>, with \<open>path = page.file.src_uri\<close>.\<close>

definition on_page_markdown_terms :: "string \<Rightarrow> string \<Rightarrow> config \<Rightarrow> error + string" where
  "on_page_markdown_terms markdown path config =
     (if suffix ''terms/index.md'' path then
        seq (sorted_by sort_title (map snd (get_terms_or_empty config))) (\<lambda>terms_sorted.
          let terms_formatted = map format_link (filter has_title_and_url terms_sorted)
          in Inr (markdown @ ''<br/>'' @ join ''<br/>'' terms_formatted))
      else if path \<noteq> [] \<and> term_page_match path then
        (case map_of (get_terms_or_empty config) (fst (splitext (basename path))) of
           None \<Rightarrow> Inr markdown
         | Some t \<Rightarrow>
             if truthy (nist_url t) \<or> truthy (cwe_url t) then
               Inr (markdown @ [nl, nl, nl] @ ''## Other Framework References'' @
                 (if truthy (nist_url t) then [nl, nl] @ ''[NIST]('' @ fmt (nist_url t) @ '')'' else []) @
                 (if truthy (cwe_url t) then [nl, nl] @ ''[CWE]('' @ fmt (cwe_url t) @ '')'' else []))
             else Inr markdown)
      else Inr markdown)"
section \<open>Watch-List Patcher (fix-serve-watch.py)\<close>

text \<open>
  \<open>config.get('extra', {}).get(key)\<close>: \<open>None\<close> when the key is missing and when \<open>None\<close> is
  recorded under it.
\<close>

definition extra_get :: "config \<Rightarrow> string \<Rightarrow> path option" where
  "extra_get config key =
     (case extra config of None \<Rightarrow> None | Some e \<Rightarrow> (case e key of None \<Rightarrow> None | Some v \<Rightarrow> v))"

text \<open>\<open>config['extra'][key]\<close>, which needs both keys.\<close>

definition extra_item :: "config \<Rightarrow> string \<Rightarrow> error + path option" where
  "extra_item config key =
     (case extra config of
        None \<Rightarrow> Inl (KeyError ''extra'')
      | Some e \<Rightarrow> (case e key of None \<Rightarrow> Inl (KeyError key) | Some v \<Rightarrow> Inr v))"

text \<open>
  The live-reload server is the host's object. The hook calls two of its methods, \<open>unwatch\<close>
  and \<open>watch\<close>; they are parameters here, each giving the server as the call leaves it, or
  the exception it raises. A recorded location is a \<open>Path\<close>, which is true; \<open>watch\<close> makes a
  path absolute, which raises \<open>TypeError\<close> for \<open>None\<close>.
\<close>

definition watch_if_recorded ::
  "(path \<Rightarrow> 'srv \<Rightarrow> error + 'srv) \<Rightarrow> config \<Rightarrow> string \<Rightarrow> 'srv \<Rightarrow> error + 'srv" where
  "watch_if_recorded watch config key s =
     (if extra_get config key \<noteq> None
      then seq (extra_item config key)
             (\<lambda>v. case v of None \<Rightarrow> Inl TypeError | Some p \<Rightarrow> watch p s)
      else Inr s)"

text \<open>\<open>on_serve(server, config)\<close>: only a \<open>ValueError\<close> of \<open>unwatch\<close> is caught.\<close>

definition on_serve ::
  "(path \<Rightarrow> 'srv \<Rightarrow> error + 'srv) \<Rightarrow> (path \<Rightarrow> 'srv \<Rightarrow> error + 'srv) \<Rightarrow> 'srv \<Rightarrow> config \<Rightarrow>
     error + 'srv" where
  "on_serve unwatch watch srv config =
     seq (case unwatch [''docs''] srv of
            Inl e \<Rightarrow> if e = ValueError then Inr srv else Inl e
          | Inr s \<Rightarrow> Inr s) (\<lambda>s.
     seq (watch_if_recorded watch config ''mastg_repo'' s) (\<lambda>s.
     seq (watch_if_recorded watch config ''masvs_repo'' s) (\<lambda>s.
       watch_if_recorded watch config ''maswe_repo'' s)))"

section \<open>Repository Merger (combine-repos.py): locating a repository\<close>

text \<open>\<open>str(p)\<close> and \<open>str(p.absolute())\<close>, \<open>cwd\<close> being the working directory.\<close>

definition path_str :: "path \<Rightarrow> string" where
  "path_str p = (if p = [] then ''.'' else join ''/'' p)"

definition absolute_str :: "string \<Rightarrow> path \<Rightarrow> string" where
  "absolute_str cwd p =
     (if p = [] then cwd else if cwd = ''/'' then ''/'' @ path_str p else cwd @ ''/'' @ path_str p)"

text \<open>\<open>repr\<close> of a string and of a list of strings, as the f-string prints the list.\<close>

definition hex_digit :: "nat \<Rightarrow> char" where
  "hex_digit n = ''0123456789abcdef'' ! n"

definition repr_char :: "char \<Rightarrow> char \<Rightarrow> string" where
  \<open>repr_char quote c =
     (let n = (of_char c :: nat)
      in if c = quote \<or> c = CHR 0x5C then [CHR 0x5C, c]
         else if c = CHR 0x09 then [CHR 0x5C, CHR ''t'']
         else if c = CHR 0x0A then [CHR 0x5C, CHR ''n'']
         else if c = CHR 0x0D then [CHR 0x5C, CHR ''r'']
         else if n < 32 \<or> n = 127 \<or> (128 \<le> n \<and> n \<le> 160) \<or> n = 173
           then [CHR 0x5C, CHR ''x'', hex_digit (n div 16), hex_digit (n mod 16)]
         else [c])\<close>

definition repr_str :: "string \<Rightarrow> string" where
  \<open>repr_str s =
     (let quote = (if CHR 0x27 \<in> set s \<and> CHR 0x22 \<notin> set s then CHR 0x22 else CHR 0x27)
      in [quote] @ concat (map (repr_char quote) s) @ [quote])\<close>

definition repr_list :: "string list \<Rightarrow> string" where
  "repr_list xs = ''['' @ join '', '' (map repr_str xs) @ '']''"

text \<open>
  The candidates, in order. The repository name is one path component;
  \<open>Path(".") / repo_name\<close> is the path \<open>repo_name\<close>.
\<close>

definition repo_candidates :: "string \<Rightarrow> path list" where
  "repo_candidates repo_name = [[''repos'', repo_name], [''..'', repo_name], [repo_name]]"

text \<open>
  \<open>locate_external_repo(repo_name)\<close>. \<open>dir_at\<close> is the state of the file system and \<open>cwd\<close>
  the working directory. The \<open>log.info\<close> calls have no part in the result and are left out.
\<close>

definition locate_external_repo :: "(path \<Rightarrow> bool) \<Rightarrow> string \<Rightarrow> string \<Rightarrow> error + path" where
  "locate_external_repo dir_at cwd repo_name =
     (case find dir_at (repo_candidates repo_name) of
        None \<Rightarrow>
          Inl (Exception (''Error: Could not find '' @ repo_name @ '' repository. Expected in '' @
                 repr_list (map (absolute_str cwd) (repo_candidates repo_name))))
      | Some repo_location \<Rightarrow> Inr repo_location)"

section \<open>Repository Merger (combine-repos.py): the controls pages\<close>

text \<open>\<open>str.strip()\<close>: the white space among the code points below 256.\<close>

definition is_space :: "char \<Rightarrow> bool" where
  "is_space c =
     (let n = (of_char c :: nat)
      in (9 \<le> n \<and> n \<le> 13) \<or> (28 \<le> n \<and> n \<le> 32) \<or> n = 133 \<or> n = 160)"

definition strip :: "string \<Rightarrow> string" where
  "strip s = rev (dropWhile is_space (rev (dropWhile is_space s)))"

text \<open>
  The greedy group \<open>([^#]*)\<close> followed by \<open>\n\n\<close>: the longest prefix \<open>u\<close> of \<open>s\<close> with
  \<open>s = u @ \n\n @ ...\<close>, searched in the longest prefix of the text that has no \<open>#\<close>.
\<close>

fun before_last_blank_line :: "string \<Rightarrow> string option" where
  "before_last_blank_line [] = None"
| "before_last_blank_line (c # cs) =
     (case before_last_blank_line cs of
        Some u \<Rightarrow> Some (c # u)
      | None \<Rightarrow> if c = nl \<and> take 1 cs = [nl] then Some [] else None)"

text \<open>\<open>control_regex = r"## Control\n\n([^#]*)\n\n"\<close> at the start of \<open>s\<close>: group 1.\<close>

definition control_regex_here :: "string \<Rightarrow> string option" where
  "control_regex_here s =
     (case strip_prefix (''## Control'' @ [nl, nl]) s of
        None \<Rightarrow> None
      | Some r \<Rightarrow> before_last_blank_line (takeWhile (\<lambda>c. c \<noteq> CHR ''#'') r))"

text \<open>\<open>description_regex = r"## Description\n\n(.*)"\<close> at the start of \<open>s\<close>: group 1. The dot
  does not match a newline.\<close>

definition description_regex_here :: "string \<Rightarrow> string option" where
  "description_regex_here s =
     (case strip_prefix (''## Description'' @ [nl, nl]) s of
        None \<Rightarrow> None
      | Some r \<Rightarrow> Some (takeWhile (\<lambda>c. c \<noteq> nl) r))"

text \<open>\<open>re.search\<close>: the match at the leftmost position that has one; \<open>None\<close> without a match.\<close>

fun re_search :: "(string \<Rightarrow> string option) \<Rightarrow> string \<Rightarrow> string option" where
  "re_search here [] = here []"
| "re_search here (c # cs) =
     (case here (c # cs) of Some g \<Rightarrow> Some g | None \<Rightarrow> re_search here cs)"

definition MAS_BLUE :: string where
  "MAS_BLUE = ''499FFF''"

text \<open>
  The body of the loop over the controls pages: the new content of the page with
  identifier \<open>control_id\<close> and content \<open>content\<close>. \<open>.group(1)\<close> on a failed search raises
  \<open>AttributeError\<close>.
\<close>

definition prettify_control :: "string \<Rightarrow> string \<Rightarrow> error + string" where
  \<open>prettify_control control_id content =
     (case re_search control_regex_here content of
        None \<Rightarrow> Inl AttributeError
      | Some g1 \<Rightarrow>
          (case re_search description_regex_here content of
             None \<Rightarrow> Inl AttributeError
           | Some g2 \<Rightarrow>
               (let control_content = strip g1;
                    description_content = strip g2
                in Inr (''# '' @ control_id @ [nl, nl] @
                        ''<p style="font-size: 2em">'' @ control_content @ ''</p>'' @ [nl, nl] @
                        ''<hr style="height: 0.2em; background-color: #'' @ MAS_BLUE @
                          ''; border: 0;" />'' @ [nl, nl] @
                        description_content @ [nl]))))\<close>


section \<open>Repository Merger (combine-repos.py): the file system\<close>

text \<open>
  The file tree below the working directory, and below \<open>..\<close>, its parent: each path that
  exists is a directory or a regular file with its text. The tree is an association list
  from paths to nodes, in which the first entry for a path counts; the empty path is the
  working directory. In a tree that a file system can hold, the parent of every entry is
  a directory. Symbolic links, permissions and files that are not valid text are outside
  the model, and so is any other name for a file than its path (as \<open>a/../b\<close> for \<open>b\<close>).
\<close>

datatype node = Dir | File string

type_synonym fs = "(path \<times> node) list"

definition node_at :: "fs \<Rightarrow> path \<Rightarrow> node option" where
  "node_at fs p = (if p = [] then Some Dir else map_of fs p)"

definition path_exists :: "fs \<Rightarrow> path \<Rightarrow> bool" where
  "path_exists fs p = (node_at fs p \<noteq> None)"

definition is_dir :: "fs \<Rightarrow> path \<Rightarrow> bool" where
  "is_dir fs p = (node_at fs p = Some Dir)"

definition is_file :: "fs \<Rightarrow> path \<Rightarrow> bool" where
  "is_file fs p = (case node_at fs p of Some (File c) \<Rightarrow> True | _ \<Rightarrow> False)"

text \<open>
  The paths of the tree, each once. A directory is listed in no particular order; the
  model lists the paths in their lexicographic order.
\<close>

definition paths_of :: "fs \<Rightarrow> path list" where
  "paths_of fs = sort (remdups (filter (\<lambda>q. q \<noteq> []) (map fst fs)))"

text \<open>\<open>shutil.rmtree(p)\<close>: fails on a path that is missing or a regular file.\<close>

definition rmtree :: "path \<Rightarrow> fs \<Rightarrow> error + fs" where
  "rmtree p fs =
     (if is_dir fs p then Inr (filter (\<lambda>(q, n). \<not> prefix p q) fs) else Inl (OSError p))"

text \<open>
  \<open>p.mkdir(parents=True, exist_ok=True)\<close> and \<open>os.makedirs(p, exist_ok=True)\<close>: every
  missing directory on the way to \<open>p\<close> is made; the call fails when \<open>p\<close> or one of its
  ancestors is a regular file.
\<close>

definition mkdir_parents :: "path \<Rightarrow> fs \<Rightarrow> error + fs" where
  "mkdir_parents p fs =
     (if list_ex (is_file fs) (prefixes p) then Inl (OSError p)
      else Inr (map (\<lambda>q. (q, Dir)) (filter (\<lambda>q. \<not> path_exists fs q) (prefixes p)) @ fs))"




text \<open>
  \<open>shutil.copy(src, dst)\<close>, which \<open>copytree\<close> uses for the files too (as \<open>copy2\<close>): when
  \<open>dst\<close> is a directory the file is written into it, under the name of \<open>src\<close>.
\<close>

definition copy_target :: "fs \<Rightarrow> path \<Rightarrow> path \<Rightarrow> path" where
  "copy_target fs src dst = (if is_dir fs dst then dst @ [last src] else dst)"


text \<open>
  \<open>shutil.copytree(src, dst, dirs_exist_ok=True)\<close>, for \<open>src\<close> and \<open>dst\<close> apart from each
  other. \<open>src\<close> must be a directory; \<open>dst\<close> is made with its parents; every directory
  below \<open>src\<close> is made below \<open>dst\<close>, which fails where a regular file stands; every file
  below \<open>src\<close> is copied as by \<open>shutil.copy\<close>. The failures inside the tree are collected and
  raised at the end, so any of them makes the call fail.
\<close>

definition below :: "path \<Rightarrow> fs \<Rightarrow> (path \<times> node) list" where
  "below src fs =
     map (\<lambda>q. (drop (length src) q, case node_at fs q of Some n \<Rightarrow> n | None \<Rightarrow> Dir))
       (filter (strict_prefix src) (paths_of fs))"

definition copy_entry_target :: "fs \<Rightarrow> path \<Rightarrow> path \<times> node \<Rightarrow> path" where
  "copy_entry_target fs dst e =
     (case snd e of Dir \<Rightarrow> dst @ fst e | File c \<Rightarrow> copy_target fs (fst e) (dst @ fst e))"

definition copy_entry_fails :: "fs \<Rightarrow> path \<Rightarrow> path \<times> node \<Rightarrow> bool" where
  "copy_entry_fails fs dst e =
     (case snd e of
        Dir \<Rightarrow> is_file fs (dst @ fst e)
      | File c \<Rightarrow> is_dir fs (copy_target fs (fst e) (dst @ fst e)))"

definition copytree :: "path \<Rightarrow> path \<Rightarrow> fs \<Rightarrow> error + fs" where
  "copytree src dst fs =
     (if \<not> is_dir fs src then Inl (OSError src)
      else seq (mkdir_parents dst fs) (\<lambda>fs1.
        let entries = below src fs
        in if list_ex (copy_entry_fails fs1 dst) entries then Inl (OSError dst)
           else Inr (map (\<lambda>e. (copy_entry_target fs1 dst e, snd e)) entries @ fs1)))"







text \<open>A tree that a file system can hold: the parent of every entry is a directory.\<close>

definition well_formed :: "fs \<Rightarrow> bool" where
  "well_formed fs = list_all (\<lambda>q. is_dir fs (butlast q)) (paths_of fs)"

section \<open>Repository Merger (combine-repos.py): the merge\<close>

text \<open>
  The state of a build: the file tree and the warnings logged so far. The \<open>log.info\<close>
  calls have no part in any result and are left out.
\<close>

record state =
  files :: fs
  warnings :: "string list"

definition on_files :: "(fs \<Rightarrow> error + fs) \<Rightarrow> state \<Rightarrow> error + state" where
  "on_files f s = seq (f (files s)) (\<lambda>fs. Inr (s\<lparr>files := fs\<rparr>))"

definition log_warning :: "string \<Rightarrow> state \<Rightarrow> state" where
  "log_warning msg s = s\<lparr>warnings := warnings s @ [msg]\<rparr>"

text \<open>\<open>clean_and_copy(source, destination)\<close>\<close>

definition clean_and_copy :: "path \<Rightarrow> path \<Rightarrow> state \<Rightarrow> error + state" where
  "clean_and_copy source destination s =
     seq (if path_exists (files s) destination then on_files (rmtree destination) s else Inr s) (\<lambda>s.
     seq (on_files (mkdir_parents (butlast destination)) s) (\<lambda>s.
       if \<not> path_exists (files s) source
       then on_files (mkdir_parents destination)
              (log_warning (''Source directory does not exist: '' @ path_str source) s)
       else on_files (copytree source destination) s))"


























section \<open>Notions for the properties of the merge\<close>

text \<open>Two trees agree on a set of paths; the paths at or below a path (its tree); the paths outside \<open>docs\<close>.\<close>

definition agree :: "path set \<Rightarrow> fs \<Rightarrow> fs \<Rightarrow> bool" where
  "agree X a b = (\<forall>p \<in> X. node_at a p = node_at b p)"

definition tree_at :: "path \<Rightarrow> path set" where
  "tree_at d = {q. prefix d q}"

definition outside_docs :: "path set" where
  "outside_docs = {p. \<not> prefix [''docs''] p}"

text \<open>
  A step of the merge, run on well-formed trees: it keeps the tree well-formed and changes
  nothing outside \<open>docs\<close>; and two runs of it that start from trees that agree on \<open>X\<close>
  end, when both return, in trees that agree on \<open>Y\<close>.
\<close>

definition rebuilds :: "path set \<Rightarrow> path set \<Rightarrow> (state \<Rightarrow> error + state) \<Rightarrow> bool" where
  "rebuilds X Y f =
     ((\<forall>s s'. well_formed (files s) \<and> f s = Inr s' \<longrightarrow>
         well_formed (files s') \<and> agree outside_docs (files s) (files s')) \<and>
      (\<forall>s t s' t'. well_formed (files s) \<and> well_formed (files t) \<and> agree X (files s) (files t) \<and>
         f s = Inr s' \<and> f t = Inr t' \<longrightarrow> agree Y (files s') (files t')))"




text \<open>A title that is true and is no text, such as the number 2024.\<close>

definition true_non_text :: "front_value \<Rightarrow> bool" where
  "true_non_text v = (case v of NonText b s \<Rightarrow> b | _ \<Rightarrow> False)"
section \<open>Example inputs\<close>

definition untitled_terms :: config where
  "untitled_terms = \<lparr>extra = None, terms = Some
     [(''MASTG-TERM-0003'', \<lparr>rel_path_no_ext = ''MASTG/terms/MASTG-TERM-0003'', title = Null,
          nist_url = None, cwe_url = None\<rparr>),
      (''MASTG-TERM-0004'', \<lparr>rel_path_no_ext = ''MASTG/terms/MASTG-TERM-0004'', title = Text [],
          nist_url = None, cwe_url = None\<rparr>)]\<rparr>"

definition example_terms :: config where
  "example_terms = \<lparr>extra = None, terms = Some
     [(''MASTG-TERM-0001'', \<lparr>rel_path_no_ext = ''MASTG/terms/MASTG-TERM-0001'', title = Text ''Zygote'',
          nist_url = Some ''https://nist.example/z'', cwe_url = Some ''https://cwe.example/1''\<rparr>),
      (''MASTG-TERM-0002'', \<lparr>rel_path_no_ext = ''MASTG/terms/MASTG-TERM-0002'', title = Text ''apk'',
          nist_url = None, cwe_url = None\<rparr>),
      (''MASTG-TERM-0003'', \<lparr>rel_path_no_ext = ''MASTG/terms/MASTG-TERM-0003'', title = Null,
          nist_url = None, cwe_url = None\<rparr>),
      (''MASTG-TERM-0005'', \<lparr>rel_path_no_ext = ''MASTG/terms/MASTG-TERM-0005'', title = NonText False ''0'',
          nist_url = None, cwe_url = None\<rparr>)]\<rparr>"

text \<open>A term page with \<open>title: 2024\<close> in its front matter: the title is a number.\<close>

definition numeric_title_terms :: config where
  "numeric_title_terms = \<lparr>extra = None, terms = Some
     [(''MASTG-TERM-0002'', \<lparr>rel_path_no_ext = ''MASTG/terms/MASTG-TERM-0002'', title = Text ''apk'',
          nist_url = None, cwe_url = None\<rparr>),
      (''MASTG-TERM-0006'', \<lparr>rel_path_no_ext = ''MASTG/terms/MASTG-TERM-0006'', title = NonText True ''2024'',
          nist_url = None, cwe_url = None\<rparr>)]\<rparr>"

text \<open>
  The configuration after a build (\<open>None\<close> is recorded for the MASTG), and two others.
\<close>

definition recorded_by_build :: config where
  "recorded_by_build = \<lparr>extra = Some [''mastg_repo'' \<mapsto> None, ''maswe_repo'' \<mapsto> Some [''maswe''],
      ''masvs_repo'' \<mapsto> Some [''..'', ''masvs'']], terms = None\<rparr>"

definition recorded_all :: config where
  "recorded_all = \<lparr>extra = Some [''mastg_repo'' \<mapsto> Some [''repos'', ''mastg''],
      ''masvs_repo'' \<mapsto> Some [''..'', ''masvs''], ''maswe_repo'' \<mapsto> Some [''maswe'']], terms = None\<rparr>"

definition recorded_one :: config where
  "recorded_one = \<lparr>extra = Some [''masvs_repo'' \<mapsto> Some [''..'', ''masvs'']], terms = None\<rparr>"

text \<open>
  A server given by the list of the paths it watches. As the host's server does, it fails
  with \<open>KeyError\<close> when a path that is not watched is to be dropped.
\<close>

definition list_unwatch :: "path \<Rightarrow> path list \<Rightarrow> error + path list" where
  "list_unwatch p ws = (if p \<in> set ws then Inr (remove1 p ws) else Inl (KeyError (path_str p)))"

definition list_watch :: "path \<Rightarrow> path list \<Rightarrow> error + path list" where
  "list_watch p ws = Inr (ws @ [p])"

definition two_line_control :: string where
  "two_line_control =
     ''## Control'' @ [nl, nl] @ ''The app securely stores sensitive data.'' @ [nl, nl] @
     ''## Description'' @ [nl, nl] @ ''Apps handle sensitive data.'' @ [nl] @
     ''This control covers intentional storage.'' @ [nl]"

definition missing_weaknesses :: state where
  "missing_weaknesses = \<lparr>files =
     [([''docs''], Dir), ([''docs'', ''MASWE''], Dir),
      ([''docs'', ''MASWE'', ''old.md''], File ''stale''),
      ([''repos''], Dir), ([''repos'', ''maswe''], Dir)], warnings = []\<rparr>"

definition blocked_destination :: state where
  "blocked_destination = \<lparr>files =
     [([''docs''], Dir), ([''docs'', ''MASWE''], File ''not a directory''),
      ([''repos''], Dir), ([''repos'', ''maswe''], Dir)], warnings = []\<rparr>"



section \<open>Properties of the text functions\<close>

lemma str_in_iff: "str_in needle hay \<longleftrightarrow> (\<exists>pre post. hay = pre @ needle @ post)"
proof -
  have "str_in needle hay \<longleftrightarrow> sublist needle hay"
    by (induction hay) (auto simp: sublist_Cons_right)
  then show ?thesis by (simp add: sublist_def)
qed

section \<open>Banner Injector\<close>

text \<open>
  C4. A page whose source path contains \<open>checklists/MASVS-\<close> gets the fixed block (a
  newline and the banner text), two newlines and then its own markdown, unchanged; any
  other page is returned as it is.
\<close>

theorem banner_on_checklist_pages:
  "((\<exists>pre post. path = pre @ ''checklists/MASVS-'' @ post) \<longrightarrow>
      on_page_markdown_banner markdown path = ([nl] @ checklists_banner) @ [nl, nl] @ markdown) \<and>
   (\<not> (\<exists>pre post. path = pre @ ''checklists/MASVS-'' @ post) \<longrightarrow>
      on_page_markdown_banner markdown path = markdown)"
  by (simp add: on_page_markdown_banner_def str_in_iff)

theorem banner_on_checklist_pages_witness:
  "(\<exists>pre post. ''MASTG/checklists/MASVS-AUTH.md'' = pre @ ''checklists/MASVS-'' @ post) \<and>
   on_page_markdown_banner ''# Auth'' ''MASTG/checklists/MASVS-AUTH.md'' =
     ([nl] @ checklists_banner) @ [nl, nl] @ ''# Auth'' \<and>
   \<not> (\<exists>pre post. ''MASTG/index.md'' = pre @ ''checklists/MASVS-'' @ post) \<and>
   on_page_markdown_banner ''# Home'' ''MASTG/index.md'' = ''# Home''"
proof -
  have a: "str_in ''checklists/MASVS-'' ''MASTG/checklists/MASVS-AUTH.md''" by simp
  have b: "\<not> str_in ''checklists/MASVS-'' ''MASTG/index.md''" by simp
  from a b banner_on_checklist_pages [of "''MASTG/checklists/MASVS-AUTH.md''" "''# Auth''"]
    banner_on_checklist_pages [of "''MASTG/index.md''" "''# Home''"]
  show ?thesis unfolding str_in_iff by blast
qed

section \<open>Terminology Linker\<close>

lemma truthy_Some: "truthy v \<longleftrightarrow> (\<exists>s. v = Some s \<and> s \<noteq> [])"
  by (cases v) (auto simp: truthy_def)

lemma url_nonempty: "url t \<noteq> []"
  by (simp add: url_def)

lemma has_title_iff: "has_title_and_url t \<longleftrightarrow> truthy_value (title t)"
  by (simp add: has_title_and_url_def url_nonempty)

text \<open>The sort key of a record can be computed unless its title is true and no text.\<close>

lemma sort_title_text:
  assumes "\<not> true_non_text (title t)"
  shows "sort_title t = Inr (lower (case title t of Text s \<Rightarrow> s | _ \<Rightarrow> []))"
  using assms
  by (cases "title t")
    (auto simp: sort_title_def or_empty_def truthy_value_def lower_value_def true_non_text_def lower_def)

lemma sort_title_non_text:
  assumes "true_non_text (title t)"
  shows "sort_title t = Inl AttributeError"
  using assms
  by (cases "title t")
    (auto simp: sort_title_def or_empty_def truthy_value_def lower_value_def true_non_text_def)

lemma sort_title_error: "sort_title t = Inl e \<Longrightarrow> e = AttributeError"
  by (cases "true_non_text (title t)") (simp_all add: sort_title_text sort_title_non_text)

text \<open>\<open>sorted\<close> with a key that can be computed for every element, and with one that cannot.\<close>

lemma keyed_Inr:
  assumes "\<forall>x \<in> set xs. f x = Inr (g x)"
  shows "keyed f xs = Inr (map (\<lambda>x. (g x, x)) xs)"
  using assms by (induction xs) (simp_all add: seq_def)

lemma insort_key_decorated:
  "insort_key fst (g x, x) (map (\<lambda>x. (g x, x)) ys) = map (\<lambda>x. (g x, x)) (insort_key g x ys)"
  by (induction ys) simp_all

lemma sort_key_decorated:
  "sort_key fst (map (\<lambda>x. (g x, x)) xs) = map (\<lambda>x. (g x, x)) (sort_key g xs)"
  by (induction xs) (simp_all add: insort_key_decorated)

lemma sorted_by_Inr:
  assumes "\<forall>x \<in> set xs. f x = Inr (g x)"
  shows "sorted_by f xs = Inr (sort_key g xs)"
  by (simp add: sorted_by_def keyed_Inr [OF assms] seq_def sort_key_decorated comp_def)

lemma keyed_Inl:
  assumes "x \<in> set xs" "f x = Inl e" "\<forall>y \<in> set xs. \<forall>e'. f y = Inl e' \<longrightarrow> e' = e"
  shows "keyed f xs = Inl e"
  using assms(1,3)
proof (induction xs)
  case Nil
  then show ?case by simp
next
  case (Cons y ys)
  show ?case
  proof (cases "f y")
    case (Inl e')
    moreover from Cons.prems(2) Inl have "e' = e" by simp
    ultimately show ?thesis by (simp add: seq_def)
  next
    case (Inr k)
    have "x \<noteq> y"
    proof
      assume "x = y"
      with Inr assms(2) show False by simp
    qed
    with Cons.prems(1) have x: "x \<in> set ys" by simp
    from Cons.prems(2) have all: "\<forall>y \<in> set ys. \<forall>e'. f y = Inl e' \<longrightarrow> e' = e" by simp
    from x all have "keyed f ys = Inl e" by (rule Cons.IH)
    with Inr show ?thesis by (simp add: seq_def)
  qed
qed

text \<open>
  What the hook does on the glossary index page when a title is true and no text: the
  sort key cannot be computed, and the exception leaves the hook.
\<close>

lemma glossary_index_non_text_title:
  assumes "suffix ''terms/index.md'' path"
    and "t \<in> set (map snd (get_terms_or_empty config))" and "true_non_text (title t)"
  shows "on_page_markdown_terms markdown path config = Inl AttributeError"
proof -
  have "keyed sort_title (map snd (get_terms_or_empty config)) = Inl AttributeError"
    using assms(2) sort_title_non_text [OF assms(3)]
    by (rule keyed_Inl) (simp add: sort_title_error)
  then show ?thesis
    using assms(1) by (simp add: on_page_markdown_terms_def sorted_by_def seq_def)
qed

lemma glossary_index_sorted:
  assumes "suffix ''terms/index.md'' path"
    and "\<forall>t \<in> set (map snd (get_terms_or_empty config)). \<not> true_non_text (title t)"
  shows "on_page_markdown_terms markdown path config =
           Inr (markdown @ ''<br/>'' @ join ''<br/>'' (map format_link
             (sort_key (\<lambda>t. lower (case title t of Text s \<Rightarrow> s | _ \<Rightarrow> []))
               (filter has_title_and_url (map snd (get_terms_or_empty config))))))"
proof -
  have "\<forall>t \<in> set (map snd (get_terms_or_empty config)).
      sort_title t = Inr (lower (case title t of Text s \<Rightarrow> s | _ \<Rightarrow> []))"
    using assms(2) by (simp add: sort_title_text)
  from sorted_by_Inr [OF this] show ?thesis
    using assms(1) by (simp add: on_page_markdown_terms_def seq_def filter_sort)
qed

lemma format_link_good:
  assumes "has_title_and_url t" "\<not> true_non_text (title t)"
  shows "\<exists>ti. ti \<noteq> [] \<and> title t = Text ti \<and> sort_title t = Inr (lower ti) \<and>
           format_link t = ''['' @ ti @ '']('' @ url t @ '')''"
  using assms
  by (cases "title t")
    (auto simp: has_title_and_url_def truthy_value_def true_non_text_def format_link_def fmt_value_def
      sort_title_def or_empty_def lower_value_def)

text \<open>
  C5, as amended. On the glossary index page, when no title in the index is a true value
  that is no text, the hook appends \<open><br/>\<close> and the links joined by \<open><br/>\<close>: one link
  \<open>[title](url)\<close> for each term record that has a title and a URL (so N links for N such
  records), in the order of the lower-cased titles; the records without a title are left
  out (every record has a URL), and nothing fails.
\<close>

theorem glossary_index_links:
  assumes "suffix ''terms/index.md'' path"
    and "\<forall>t \<in> set (map snd (get_terms_or_empty config)). \<not> true_non_text (title t)"
  shows "\<exists>ts ks. on_page_markdown_terms markdown path config =
             Inr (markdown @ ''<br/>'' @ join ''<br/>'' (map format_link ts)) \<and>
           mset ts = mset (filter has_title_and_url (map snd (get_terms_or_empty config))) \<and>
           length ts = length (filter has_title_and_url (map snd (get_terms_or_empty config))) \<and>
           map sort_title ts = map Inr ks \<and> sorted ks \<and>
           (\<forall>t \<in> set ts. \<exists>ti. ti \<noteq> [] \<and> title t = Text ti \<and> sort_title t = Inr (lower ti) \<and>
              format_link t = ''['' @ ti @ '']('' @ url t @ '')'')"
proof -
  let ?all = "map snd (get_terms_or_empty config)"
  let ?key = "\<lambda>t. lower (case title t of Text s \<Rightarrow> s | _ \<Rightarrow> [])"
  let ?ts = "sort_key ?key (filter has_title_and_url ?all)"
  have out: "on_page_markdown_terms markdown path config =
      Inr (markdown @ ''<br/>'' @ join ''<br/>'' (map format_link ?ts))"
    using assms by (rule glossary_index_sorted)
  have plain: "\<not> true_non_text (title t)" if "t \<in> set ?ts" for t
    using that assms(2) by auto
  have each: "\<forall>t \<in> set ?ts. \<exists>ti. ti \<noteq> [] \<and> title t = Text ti \<and> sort_title t = Inr (lower ti) \<and>
      format_link t = ''['' @ ti @ '']('' @ url t @ '')''"
  proof
    fix t assume t: "t \<in> set ?ts"
    then have "has_title_and_url t" by simp
    then show "\<exists>ti. ti \<noteq> [] \<and> title t = Text ti \<and> sort_title t = Inr (lower ti) \<and>
        format_link t = ''['' @ ti @ '']('' @ url t @ '')''"
      using plain [OF t] by (rule format_link_good)
  qed
  have keys: "map sort_title ?ts = map Inr (map ?key ?ts)"
    using plain by (simp add: sort_title_text)
  have "mset ?ts = mset (filter has_title_and_url ?all)" by simp
  moreover have "length ?ts = length (filter has_title_and_url ?all)" by simp
  moreover have "sorted (map ?key ?ts)" by simp
  ultimately show ?thesis using out each keys by blast
qed

theorem glossary_index_links_witness:
  "suffix ''terms/index.md'' ''MASTG/terms/index.md'' \<and>
   filter (\<lambda>t. true_non_text (title t)) (map snd (get_terms_or_empty example_terms)) = [] \<and>
   (\<exists>ts ks. on_page_markdown_terms ''# Terms'' ''MASTG/terms/index.md'' example_terms =
             Inr (''# Terms'' @ ''<br/>'' @ join ''<br/>'' (map format_link ts)) \<and>
           mset ts = mset (filter has_title_and_url (map snd (get_terms_or_empty example_terms))) \<and>
           length ts = length (filter has_title_and_url (map snd (get_terms_or_empty example_terms))) \<and>
           map sort_title ts = map Inr ks \<and> sorted ks \<and>
           (\<forall>t \<in> set ts. \<exists>ti. ti \<noteq> [] \<and> title t = Text ti \<and> sort_title t = Inr (lower ti) \<and>
              format_link t = ''['' @ ti @ '']('' @ url t @ '')'')) \<and>
   length (filter has_title_and_url (map snd (get_terms_or_empty example_terms))) = 2 \<and>
   on_page_markdown_terms ''# Terms'' ''MASTG/terms/index.md'' example_terms =
     Inr ''# Terms<br/>[apk](/MASTG/terms/MASTG-TERM-0002/)<br/>[Zygote](/MASTG/terms/MASTG-TERM-0001/)''"
proof -
  have h: "suffix ''terms/index.md'' ''MASTG/terms/index.md''"
    by (simp add: suffix_to_prefix)
  have n: "\<forall>t \<in> set (map snd (get_terms_or_empty example_terms)). \<not> true_non_text (title t)"
    by (simp add: example_terms_def get_terms_or_empty_def true_non_text_def)
  have l: "length (filter has_title_and_url (map snd (get_terms_or_empty example_terms))) = 2"
    by (simp add: example_terms_def get_terms_or_empty_def has_title_iff truthy_value_def)
  have v: "on_page_markdown_terms ''# Terms'' ''MASTG/terms/index.md'' example_terms =
     Inr ''# Terms<br/>[apk](/MASTG/terms/MASTG-TERM-0002/)<br/>[Zygote](/MASTG/terms/MASTG-TERM-0001/)''"
    by code_simp
  from n have n': "filter (\<lambda>t. true_non_text (title t)) (map snd (get_terms_or_empty example_terms)) = []"
    by (simp add: filter_empty_conv)
  from h n' l v glossary_index_links [OF h n, of "''# Terms''"] show ?thesis by blast
qed

text \<open>
  C5 as it is stated fails for an index with a title that is a number: the record has a
  title and a URL, and the hook raises instead of giving two links.
\<close>

theorem glossary_index_numeric_title:
  "suffix ''terms/index.md'' ''MASTG/terms/index.md'' \<and>
   length (filter has_title_and_url (map snd (get_terms_or_empty numeric_title_terms))) = 2 \<and>
   on_page_markdown_terms ''# Terms'' ''MASTG/terms/index.md'' numeric_title_terms = Inl AttributeError"
proof -
  have "suffix ''terms/index.md'' ''MASTG/terms/index.md''"
    by (simp add: suffix_to_prefix)
  moreover have "length (filter has_title_and_url (map snd (get_terms_or_empty numeric_title_terms))) = 2"
    by (simp add: numeric_title_terms_def get_terms_or_empty_def has_title_iff truthy_value_def)
  moreover have "on_page_markdown_terms ''# Terms'' ''MASTG/terms/index.md'' numeric_title_terms =
      Inl AttributeError"
    by code_simp
  ultimately show ?thesis by blast
qed

lemma digit_not_slash: "is_digit c \<Longrightarrow> c \<noteq> CHR ''/''"
  by (auto simp: is_digit_def)

lemma digit_not_dot: "is_digit c \<Longrightarrow> c \<noteq> CHR ''.''"
  by (auto simp: is_digit_def)

lemma term_page_here_exact:
  assumes "is_digit d1" "is_digit d2" "is_digit d3" "is_digit d4"
  shows "term_page_here (''terms/MASTG-TERM-'' @ [d1, d2, d3, d4] @ ''.md'' @ rest)"
  using assms by (simp add: term_page_here_def nl_def)

lemma term_page_match_exact:
  assumes "nl \<notin> set pre" "is_digit d1" "is_digit d2" "is_digit d3" "is_digit d4"
  shows "term_page_match (pre @ ''terms/MASTG-TERM-'' @ [d1, d2, d3, d4] @ ''.md'')"
  using assms(1)
proof (induction pre)
  case Nil
  have "term_page_here (''terms/MASTG-TERM-'' @ [d1, d2, d3, d4] @ ''.md'' @ [])"
    using assms(2-5) by (rule term_page_here_exact)
  then show ?case by simp
next
  case (Cons c pre)
  then show ?case by auto
qed

lemma basename_term_page:
  assumes "is_digit d1" "is_digit d2" "is_digit d3" "is_digit d4"
  shows "basename (pre @ ''terms/MASTG-TERM-'' @ [d1, d2, d3, d4] @ ''.md'') =
           ''MASTG-TERM-'' @ [d1, d2, d3, d4] @ ''.md''"
  using assms by (simp add: basename_def digit_not_slash)

lemma splitext_term_page:
  assumes "is_digit d1" "is_digit d2" "is_digit d3" "is_digit d4"
  shows "fst (splitext (''MASTG-TERM-'' @ [d1, d2, d3, d4] @ ''.md'')) = ''MASTG-TERM-'' @ [d1, d2, d3, d4]"
  using assms by (simp add: splitext_def basename_def Let_def digit_not_dot digit_not_slash)

lemma term_page_not_index:
  assumes "is_digit d4"
  shows "\<not> suffix ''terms/index.md'' (pre @ ''terms/MASTG-TERM-'' @ [d1, d2, d3, d4] @ ''.md'')"
  using assms by (auto simp add: suffix_to_prefix is_digit_def)

lemma term_page_branch:
  assumes "path = pre @ ''terms/MASTG-TERM-'' @ [d1, d2, d3, d4] @ ''.md''" "nl \<notin> set pre"
    "is_digit d1" "is_digit d2" "is_digit d3" "is_digit d4"
  shows "on_page_markdown_terms markdown path config =
     (case map_of (get_terms_or_empty config) (''MASTG-TERM-'' @ [d1, d2, d3, d4]) of
        None \<Rightarrow> Inr markdown
      | Some t \<Rightarrow>
          if truthy (nist_url t) \<or> truthy (cwe_url t) then
            Inr (markdown @ [nl, nl, nl] @ ''## Other Framework References'' @
              (if truthy (nist_url t) then [nl, nl] @ ''[NIST]('' @ fmt (nist_url t) @ '')'' else []) @
              (if truthy (cwe_url t) then [nl, nl] @ ''[CWE]('' @ fmt (cwe_url t) @ '')'' else []))
          else Inr markdown)"
proof -
  have a: "\<not> suffix ''terms/index.md'' path"
    unfolding assms(1) using assms(6) by (rule term_page_not_index)
  have b: "term_page_match path"
    unfolding assms(1) using assms(2-6) by (rule term_page_match_exact)
  have c: "path \<noteq> []" using assms(1) by simp
  have d: "fst (splitext (basename path)) = ''MASTG-TERM-'' @ [d1, d2, d3, d4]"
    unfolding assms(1) using assms(3-6) by (simp only: basename_term_page splitext_term_page)
  show ?thesis
    unfolding on_page_markdown_terms_def using a b c d by simp
qed

text \<open>
  C6. For a page \<open>...terms/MASTG-TERM-dddd.md\<close> (four digits) whose term record is in the
  index with both reference URLs, the output is the markdown followed by the section
  \<open>## Other Framework References\<close> with the NIST link and then the CWE link, each after a
  blank line; when the identifier is not in the index, or its record has neither URL, the
  markdown is returned unchanged.
\<close>

theorem term_page_references:
  assumes "path = pre @ ''terms/MASTG-TERM-'' @ [d1, d2, d3, d4] @ ''.md''" and "nl \<notin> set pre"
    and "is_digit d1" "is_digit d2" "is_digit d3" "is_digit d4"
  shows "(map_of (get_terms_or_empty config) (''MASTG-TERM-'' @ [d1, d2, d3, d4]) = Some t \<and>
            nist_url t = Some n \<and> n \<noteq> [] \<and> cwe_url t = Some c \<and> c \<noteq> [] \<longrightarrow>
          on_page_markdown_terms markdown path config =
            Inr (markdown @ [nl, nl, nl] @ ''## Other Framework References'' @
              [nl, nl] @ ''[NIST]('' @ n @ '')'' @ [nl, nl] @ ''[CWE]('' @ c @ '')'')) \<and>
         (map_of (get_terms_or_empty config) (''MASTG-TERM-'' @ [d1, d2, d3, d4]) = None \<or>
            (map_of (get_terms_or_empty config) (''MASTG-TERM-'' @ [d1, d2, d3, d4]) = Some t \<and>
             \<not> truthy (nist_url t) \<and> \<not> truthy (cwe_url t)) \<longrightarrow>
          on_page_markdown_terms markdown path config = Inr markdown)"
  unfolding term_page_branch [OF assms]
  by (auto simp: truthy_def fmt_def)

theorem term_page_references_witness:
  "''MASTG/terms/MASTG-TERM-0001.md'' = ''MASTG/'' @ ''terms/MASTG-TERM-'' @ ''0001'' @ ''.md'' \<and>
   nl \<notin> set ''MASTG/'' \<and> is_digit CHR ''0'' \<and> is_digit CHR ''1'' \<and>
   map_of (get_terms_or_empty example_terms) (''MASTG-TERM-'' @ ''0001'') =
     Some \<lparr>rel_path_no_ext = ''MASTG/terms/MASTG-TERM-0001'', title = Text ''Zygote'',
          nist_url = Some ''https://nist.example/z'', cwe_url = Some ''https://cwe.example/1''\<rparr> \<and>
   on_page_markdown_terms ''# Zygote'' ''MASTG/terms/MASTG-TERM-0001.md'' example_terms =
     Inr (''# Zygote'' @ [nl, nl, nl] @ ''## Other Framework References'' @
       [nl, nl] @ ''[NIST](https://nist.example/z)'' @ [nl, nl] @ ''[CWE](https://cwe.example/1)'') \<and>
   map_of (get_terms_or_empty example_terms) (''MASTG-TERM-'' @ ''0009'') = None \<and> is_digit CHR ''9'' \<and>
   on_page_markdown_terms ''# Nine'' ''MASTG/terms/MASTG-TERM-0009.md'' example_terms = Inr ''# Nine''"
proof -
  let ?t = "\<lparr>rel_path_no_ext = ''MASTG/terms/MASTG-TERM-0001'', title = Text ''Zygote'',
          nist_url = Some ''https://nist.example/z'', cwe_url = Some ''https://cwe.example/1''\<rparr>"
  have p: "''MASTG/terms/MASTG-TERM-0001.md'' = ''MASTG/'' @ ''terms/MASTG-TERM-'' @ ''0001'' @ ''.md''"
    by simp
  have p9: "''MASTG/terms/MASTG-TERM-0009.md'' = ''MASTG/'' @ ''terms/MASTG-TERM-'' @ ''0009'' @ ''.md''"
    by simp
  have q: "nl \<notin> set ''MASTG/''" by (simp add: nl_def)
  have d0: "is_digit CHR ''0''" and d1: "is_digit CHR ''1''" and d9: "is_digit CHR ''9''"
    by (simp_all add: is_digit_def)
  have m: "map_of (get_terms_or_empty example_terms) (''MASTG-TERM-'' @ ''0001'') = Some ?t"
    by (simp add: example_terms_def get_terms_or_empty_def)
  have m9: "map_of (get_terms_or_empty example_terms) (''MASTG-TERM-'' @ ''0009'') = None"
    by (simp add: example_terms_def get_terms_or_empty_def)
  from term_page_references [OF p q d0 d0 d0 d1, of example_terms ?t "''https://nist.example/z''"
      "''https://cwe.example/1''" "''# Zygote''"] m
  have a: "on_page_markdown_terms ''# Zygote'' ''MASTG/terms/MASTG-TERM-0001.md'' example_terms =
     Inr (''# Zygote'' @ [nl, nl, nl] @ ''## Other Framework References'' @
       [nl, nl] @ ''[NIST](https://nist.example/z)'' @ [nl, nl] @ ''[CWE](https://cwe.example/1)'')"
    by simp
  from term_page_references [OF p9 q d0 d0 d0 d9, of example_terms ?t "''https://nist.example/z''"
      "''https://cwe.example/1''" "''# Nine''"] m9
  have b: "on_page_markdown_terms ''# Nine'' ''MASTG/terms/MASTG-TERM-0009.md'' example_terms = Inr ''# Nine''"
    by simp
  from p q d0 d1 d9 m m9 a b show ?thesis by blast
qed

text \<open>
  C10. On the glossary index page, when no term record has both a title and a URL (the
  index may be empty or missing), the output is the markdown followed by \<open><br/>\<close>.
\<close>

theorem glossary_index_without_links:
  assumes "suffix ''terms/index.md'' path"
    and "\<forall>t \<in> set (map snd (get_terms_or_empty config)). \<not> has_title_and_url t"
  shows "on_page_markdown_terms markdown path config = Inr (markdown @ ''<br/>'')"
proof -
  have none: "filter has_title_and_url (map snd (get_terms_or_empty config)) = []"
    using assms(2) by (simp add: filter_empty_conv)
  have "\<forall>t \<in> set (map snd (get_terms_or_empty config)). \<not> true_non_text (title t)"
  proof
    fix t assume "t \<in> set (map snd (get_terms_or_empty config))"
    with assms(2) have "\<not> has_title_and_url t" by blast
    then have "\<not> truthy_value (title t)" by (simp add: has_title_iff)
    then show "\<not> true_non_text (title t)"
      by (cases "title t") (simp_all add: truthy_value_def true_non_text_def)
  qed
  with assms(1) show ?thesis
    by (simp add: glossary_index_sorted none)
qed

theorem glossary_index_without_links_witness:
  "suffix ''terms/index.md'' ''MASTG/terms/index.md'' \<and>
   filter has_title_and_url (map snd (get_terms_or_empty \<lparr>extra = None, terms = None\<rparr>)) = [] \<and>
   on_page_markdown_terms ''# Terms'' ''MASTG/terms/index.md'' \<lparr>extra = None, terms = None\<rparr> =
     Inr ''# Terms<br/>'' \<and>
   filter has_title_and_url (map snd (get_terms_or_empty untitled_terms)) = [] \<and>
   on_page_markdown_terms ''# Terms'' ''MASTG/terms/index.md'' untitled_terms = Inr ''# Terms<br/>''"
proof -
  have h: "suffix ''terms/index.md'' ''MASTG/terms/index.md''"
    by (simp add: suffix_to_prefix)
  have e: "\<forall>t \<in> set (map snd (get_terms_or_empty \<lparr>extra = None, terms = None\<rparr>)). \<not> has_title_and_url t"
    by (simp add: get_terms_or_empty_def)
  have u: "\<forall>t \<in> set (map snd (get_terms_or_empty untitled_terms)). \<not> has_title_and_url t"
    by (simp add: get_terms_or_empty_def untitled_terms_def has_title_and_url_def truthy_value_def)
  from glossary_index_without_links [OF h e, of "''# Terms''"]
    glossary_index_without_links [OF h u, of "''# Terms''"] h e u
  show ?thesis by (simp add: filter_empty_conv)
qed

section \<open>Watch-List Patcher\<close>

text \<open>
  The subscripts \<open>config['extra'][key]\<close> are reached only for a key with a recorded path,
  so they raise nothing: a location is watched when a path is recorded for it and passed
  over otherwise.
\<close>

lemma watch_if_recorded_cases:
  "watch_if_recorded watch config key s =
     (case extra_get config key of None \<Rightarrow> Inr s | Some p \<Rightarrow> watch p s)"
  by (auto simp: watch_if_recorded_def extra_get_def extra_item_def seq_def split: option.splits)

lemma for_each_returns:
  assumes "\<forall>x \<in> set xs. \<forall>s. \<exists>s'. body x s = Inr s'"
  shows "\<exists>s'. for_each body xs s = Inr s'"
  using assms
proof (induction xs arbitrary: s)
  case Nil
  then show ?case by simp
next
  case (Cons x xs)
  from Cons.prems have "\<exists>s1. body x s = Inr s1" by simp
  then obtain s1 where "body x s = Inr s1" by blast
  moreover from Cons.prems have "\<exists>s'. for_each body xs s1 = Inr s'" by (intro Cons.IH) simp
  ultimately show ?case by (simp add: seq_def)
qed

text \<open>An exception of \<open>unwatch\<close> other than \<open>ValueError\<close> leaves the hook.\<close>

lemma on_serve_unwatch_error:
  assumes "unwatch [''docs''] srv = Inl e" "e \<noteq> ValueError"
  shows "on_serve unwatch watch srv config = Inl e"
  using assms by (simp add: on_serve_def seq_def)

text \<open>
  C9. The server is the host's: let its \<open>unwatch\<close> of \<open>docs\<close> return (leaving the server
  \<open>s0\<close>) or raise the \<open>ValueError\<close> that the hook catches (then \<open>s0\<close> is the server as it
  was). Then the hook calls \<open>watch\<close>, in the order MASTG, MASVS, MASWE, for exactly the
  repository locations that are recorded in \<open>config['extra']\<close>, starting from \<open>s0\<close>; a
  location that is not recorded (the key is missing, or \<open>None\<close> is recorded) is passed over
  and raises nothing. So the hook returns whenever the calls of \<open>watch\<close> for the recorded
  locations return.
\<close>

theorem on_serve_watches_recorded:
  assumes "unwatch [''docs''] srv = Inr s0 \<or> unwatch [''docs''] srv = Inl ValueError \<and> s0 = srv"
  shows "on_serve unwatch watch srv config =
           for_each watch
             (concat (map (\<lambda>key. case extra_get config key of None \<Rightarrow> [] | Some p \<Rightarrow> [p])
                [''mastg_repo'', ''masvs_repo'', ''maswe_repo''])) s0 \<and>
         ((\<forall>key \<in> {''mastg_repo'', ''masvs_repo'', ''maswe_repo''}. \<forall>p s.
              extra_get config key = Some p \<longrightarrow> (\<exists>s'. watch p s = Inr s')) \<longrightarrow>
          (\<exists>s. on_serve unwatch watch srv config = Inr s))"
proof -
  let ?recorded = "concat (map (\<lambda>key. case extra_get config key of None \<Rightarrow> [] | Some p \<Rightarrow> [p])
      [''mastg_repo'', ''masvs_repo'', ''maswe_repo''])"
  have first: "(case unwatch [''docs''] srv of
      Inl e \<Rightarrow> if e = ValueError then Inr srv else Inl e | Inr s \<Rightarrow> Inr s) = Inr s0"
    using assms by auto
  have run: "on_serve unwatch watch srv config = for_each watch ?recorded s0"
    unfolding on_serve_def first
    by (simp add: seq_def watch_if_recorded_cases split: option.splits sum.splits)
  have "\<exists>s. for_each watch ?recorded s0 = Inr s"
    if "\<forall>key \<in> {''mastg_repo'', ''masvs_repo'', ''maswe_repo''}. \<forall>p s.
          extra_get config key = Some p \<longrightarrow> (\<exists>s'. watch p s = Inr s')"
  proof (rule for_each_returns)
    show "\<forall>p \<in> set ?recorded. \<forall>s. \<exists>s'. watch p s = Inr s'"
      using that by (auto split: option.splits)
  qed
  with run show ?thesis by simp
qed

theorem on_serve_watches_recorded_witness:
  "list_unwatch [''docs''] [[''docs''], [''mkdocs.yml'']] = Inr [[''mkdocs.yml'']] \<and>
   on_serve list_unwatch list_watch [[''docs''], [''mkdocs.yml'']] recorded_by_build =
     Inr [[''mkdocs.yml''], [''..'', ''masvs''], [''maswe'']] \<and>
   on_serve list_unwatch list_watch [[''docs''], [''mkdocs.yml'']] recorded_all =
     Inr [[''mkdocs.yml''], [''repos'', ''mastg''], [''..'', ''masvs''], [''maswe'']] \<and>
   on_serve list_unwatch list_watch [[''docs''], [''mkdocs.yml'']] recorded_one =
     Inr [[''mkdocs.yml''], [''..'', ''masvs'']] \<and>
   on_serve (\<lambda>p s. Inl ValueError) list_watch [[''mkdocs.yml'']] \<lparr>extra = None, terms = None\<rparr> =
     Inr [[''mkdocs.yml'']]"
proof -
  have u: "list_unwatch [''docs''] [[''docs''], [''mkdocs.yml'']] = Inr [[''mkdocs.yml'']]"
    by (simp add: list_unwatch_def)
  from u on_serve_watches_recorded [of list_unwatch "[[''docs''], [''mkdocs.yml'']]"
        "[[''mkdocs.yml'']]" list_watch recorded_by_build]
    on_serve_watches_recorded [of list_unwatch "[[''docs''], [''mkdocs.yml'']]"
        "[[''mkdocs.yml'']]" list_watch recorded_all]
    on_serve_watches_recorded [of list_unwatch "[[''docs''], [''mkdocs.yml'']]"
        "[[''mkdocs.yml'']]" list_watch recorded_one]
    on_serve_watches_recorded [of "\<lambda>p s. Inl ValueError" "[[''mkdocs.yml'']]"
        "[[''mkdocs.yml'']]" list_watch "\<lparr>extra = None, terms = None\<rparr>"]
  show ?thesis
    by (simp add: recorded_by_build_def recorded_all_def recorded_one_def extra_get_def
        list_watch_def seq_def)
qed

section \<open>Locating a repository\<close>

lemma join_contains:
  assumes "x \<in> set xs"
  shows "\<exists>pre post. join sep xs = pre @ x @ post"
  using assms
proof (induction sep xs rule: join.induct)
  case (1 sep)
  then show ?case by simp
next
  case (2 sep y)
  then have "join sep [y] = [] @ x @ []" by simp
  then show ?case by blast
next
  case (3 sep y z zs)
  show ?case
  proof (cases "x = y")
    case True
    then have "join sep (y # z # zs) = [] @ x @ (sep @ join sep (z # zs))" by simp
    then show ?thesis by blast
  next
    case False
    with 3 obtain pre post where "join sep (z # zs) = pre @ x @ post" by auto
    then have "join sep (y # z # zs) = (y @ sep @ pre) @ x @ post" by simp
    then show ?thesis by blast
  qed
qed

lemma repr_list_contains:
  assumes "x \<in> set xs"
  shows "\<exists>pre post. repr_list xs = pre @ repr_str x @ post"
proof -
  from assms have "repr_str x \<in> set (map repr_str xs)" by simp
  from join_contains [OF this, of "'', ''"] obtain pre post
    where "join '', '' (map repr_str xs) = pre @ repr_str x @ post" by blast
  then have "repr_list xs = (''['' @ pre) @ repr_str x @ (post @ '']'')"
    by (simp add: repr_list_def)
  then show ?thesis by blast
qed

text \<open>
  C2. When none of the three candidates (\<open>repos/name\<close>, \<open>../name\<close>, \<open>name\<close>) is a
  directory, \<open>locate_external_repo\<close> raises an exception; its message is the fixed text
  with the repository name and the list of the absolute paths of the three candidates, so
  each attempted path (as \<open>repr\<close> prints it) occurs in the message.
\<close>

theorem locate_fails_naming_candidates:
  assumes "\<forall>p \<in> set (repo_candidates repo_name). \<not> dir_at p"
  shows "\<exists>msg. locate_external_repo dir_at cwd repo_name = Inl (Exception msg) \<and>
           msg = ''Error: Could not find '' @ repo_name @ '' repository. Expected in '' @
                   repr_list [absolute_str cwd [''repos'', repo_name],
                              absolute_str cwd [''..'', repo_name],
                              absolute_str cwd [repo_name]] \<and>
           (\<forall>p \<in> set (repo_candidates repo_name).
              \<exists>pre post. msg = pre @ repr_str (absolute_str cwd p) @ post)"
proof -
  let ?abs = "map (absolute_str cwd) (repo_candidates repo_name)"
  let ?msg = "''Error: Could not find '' @ repo_name @ '' repository. Expected in '' @ repr_list ?abs"
  have "find dir_at (repo_candidates repo_name) = None"
    using assms by (simp add: find_None_iff)
  then have r: "locate_external_repo dir_at cwd repo_name = Inl (Exception ?msg)"
    by (simp add: locate_external_repo_def)
  have l: "?abs = [absolute_str cwd [''repos'', repo_name], absolute_str cwd [''..'', repo_name],
      absolute_str cwd [repo_name]]"
    by (simp add: repo_candidates_def)
  have "\<exists>pre post. ?msg = pre @ repr_str (absolute_str cwd p) @ post"
    if "p \<in> set (repo_candidates repo_name)" for p
  proof -
    from that have "absolute_str cwd p \<in> set ?abs" by simp
    from repr_list_contains [OF this] obtain pre post
      where "repr_list ?abs = pre @ repr_str (absolute_str cwd p) @ post" by blast
    then have "?msg = (''Error: Could not find '' @ repo_name @ '' repository. Expected in '' @ pre) @
        repr_str (absolute_str cwd p) @ post" by simp
    then show ?thesis by blast
  qed
  with r l show ?thesis by auto
qed

theorem locate_fails_naming_candidates_witness:
  "find (\<lambda>p. p = [''docs'']) (repo_candidates ''masvs'') = None \<and>
   locate_external_repo (\<lambda>p. p = [''docs'']) ''/site'' ''masvs'' =
     Inl (Exception ''Error: Could not find masvs repository. Expected in ['/site/repos/masvs', '/site/../masvs', '/site/masvs']'')"
proof -
  have h: "\<forall>p \<in> set (repo_candidates ''masvs''). \<not> (\<lambda>p. p = [''docs'']) p"
    by (simp add: repo_candidates_def)
  have e: "repr_list [absolute_str ''/site'' [''repos'', ''masvs''], absolute_str ''/site'' [''..'', ''masvs''],
      absolute_str ''/site'' [''masvs'']] = ''['/site/repos/masvs', '/site/../masvs', '/site/masvs']''"
    by code_simp
  have n: "find (\<lambda>p. p = [''docs'']) (repo_candidates ''masvs'') = None"
    by (simp add: repo_candidates_def)
  from locate_fails_naming_candidates [OF h, of "''/site''"] n e show ?thesis by simp
qed

text \<open>
  C7. When at least one of the three candidates (\<open>repos/name\<close>, then \<open>../name\<close>, then
  \<open>name\<close>) is a directory, \<open>locate_external_repo\<close> returns the first of them that is one.
\<close>

theorem locate_returns_first_directory:
  assumes "\<exists>p \<in> set (repo_candidates repo_name). dir_at p"
  shows "repo_candidates repo_name = [[''repos'', repo_name], [''..'', repo_name], [repo_name]] \<and>
         (\<exists>i < length (repo_candidates repo_name).
            locate_external_repo dir_at cwd repo_name = Inr (repo_candidates repo_name ! i) \<and>
            dir_at (repo_candidates repo_name ! i) \<and>
            (\<forall>j < i. \<not> dir_at (repo_candidates repo_name ! j)))"
proof -
  from assms obtain p where "find dir_at (repo_candidates repo_name) = Some p"
    by (cases "find dir_at (repo_candidates repo_name)") (auto simp: find_None_iff)
  moreover from this obtain i where "i < length (repo_candidates repo_name)"
    "dir_at (repo_candidates repo_name ! i)" "p = repo_candidates repo_name ! i"
    "\<forall>j < i. \<not> dir_at (repo_candidates repo_name ! j)"
    unfolding find_Some_iff by blast
  ultimately show ?thesis
    by (auto simp: locate_external_repo_def repo_candidates_def)
qed

theorem locate_returns_first_directory_witness:
  "(\<exists>p \<in> set (repo_candidates ''mastg''). p = [''..'', ''mastg''] \<or> p = [''mastg'']) \<and>
   (\<exists>i < length (repo_candidates ''mastg'').
      locate_external_repo (\<lambda>p. p = [''..'', ''mastg''] \<or> p = [''mastg'']) ''/site'' ''mastg'' =
        Inr (repo_candidates ''mastg'' ! i) \<and>
      (repo_candidates ''mastg'' ! i = [''..'', ''mastg''] \<or> repo_candidates ''mastg'' ! i = [''mastg'']) \<and>
      (\<forall>j < i. \<not> (repo_candidates ''mastg'' ! j = [''..'', ''mastg''] \<or>
                   repo_candidates ''mastg'' ! j = [''mastg'']))) \<and>
   locate_external_repo (\<lambda>p. p = [''..'', ''mastg''] \<or> p = [''mastg'']) ''/site'' ''mastg'' =
     Inr [''..'', ''mastg'']"
proof -
  let ?d = "\<lambda>p. p = [''..'', ''mastg''] \<or> p = [''mastg'']"
  have h: "\<exists>p \<in> set (repo_candidates ''mastg''). ?d p"
    by (auto simp: repo_candidates_def)
  have v: "locate_external_repo ?d ''/site'' ''mastg'' = Inr [''..'', ''mastg'']"
    by (simp add: locate_external_repo_def repo_candidates_def)
  from locate_returns_first_directory [OF h, of "''/site''"] h v show ?thesis by blast
qed

section \<open>The controls pages\<close>

lemma re_search_skip:
  assumes "\<And>c cs. c \<noteq> CHR ''#'' \<Longrightarrow> here (c # cs) = None" and "CHR ''#'' \<notin> set pre"
  shows "re_search here (pre @ s) = re_search here s"
  using assms(2)
proof (induction pre)
  case Nil
  then show ?case by simp
next
  case (Cons c pre)
  from Cons.prems have "c \<noteq> CHR ''#''" by auto
  then have "here (c # pre @ s) = None" by (rule assms(1))
  moreover from Cons have "re_search here (pre @ s) = re_search here s" by simp
  ultimately show ?case by simp
qed

lemma control_regex_here_no_hash: "c \<noteq> CHR ''#'' \<Longrightarrow> control_regex_here (c # cs) = None"
  by (simp add: control_regex_here_def)

lemma description_regex_here_no_hash: "c \<noteq> CHR ''#'' \<Longrightarrow> description_regex_here (c # cs) = None"
  by (simp add: description_regex_here_def)

lemma before_last_blank_line_end: "before_last_blank_line (t @ [nl, nl]) = Some t"
  by (induction t) simp_all

lemma control_regex_here_section:
  assumes "CHR ''#'' \<notin> set t"
  shows "control_regex_here (''## Control'' @ [nl, nl] @ t @ [nl, nl] @ CHR ''#'' # rest) = Some t"
proof -
  have "takeWhile (\<lambda>c. c \<noteq> CHR ''#'') (t @ [nl, nl] @ CHR ''#'' # rest) = t @ [nl, nl]"
    using assms by (simp add: takeWhile_append nl_def)
  then show ?thesis
    by (simp add: control_regex_here_def before_last_blank_line_end)
qed

lemma re_search_control_section:
  assumes "CHR ''#'' \<notin> set pre" "CHR ''#'' \<notin> set t"
  shows "re_search control_regex_here
           (pre @ ''## Control'' @ [nl, nl] @ t @ [nl, nl] @ CHR ''#'' # rest) = Some t"
proof -
  have "re_search control_regex_here (pre @ ''## Control'' @ [nl, nl] @ t @ [nl, nl] @ CHR ''#'' # rest) =
      re_search control_regex_here (''## Control'' @ [nl, nl] @ t @ [nl, nl] @ CHR ''#'' # rest)"
    using control_regex_here_no_hash assms(1) by (rule re_search_skip)
  also have "\<dots> = Some t"
    using control_regex_here_section [OF assms(2), of rest] by simp
  finally show ?thesis .
qed

lemma re_search_description_section:
  assumes "CHR ''#'' \<notin> set pre" "CHR ''#'' \<notin> set t"
  shows "re_search description_regex_here
           (pre @ ''## Control'' @ [nl, nl] @ t @ [nl, nl] @ ''## Description'' @ [nl, nl] @ body) =
         Some (takeWhile (\<lambda>c. c \<noteq> nl) body)"
proof -
  let ?d = "''## Description'' @ [nl, nl] @ body"
  have skip: "re_search description_regex_here (u @ s) = re_search description_regex_here s"
    if "CHR ''#'' \<notin> set u" for u s
    using description_regex_here_no_hash that by (rule re_search_skip)
  have a: "re_search description_regex_here (pre @ ''## Control'' @ [nl, nl] @ t @ [nl, nl] @ ?d) =
      re_search description_regex_here (''## Control'' @ [nl, nl] @ t @ [nl, nl] @ ?d)"
    using assms(1) by (rule skip)
  have b: "re_search description_regex_here (''## Control'' @ [nl, nl] @ t @ [nl, nl] @ ?d) =
      re_search description_regex_here ((t @ [nl, nl]) @ ?d)"
    by (simp add: description_regex_here_def nl_def)
  have c: "re_search description_regex_here ((t @ [nl, nl]) @ ?d) = re_search description_regex_here ?d"
    using assms(2) by (intro skip) (simp add: nl_def)
  have d: "re_search description_regex_here ?d = Some (takeWhile (\<lambda>c. c \<noteq> nl) body)"
    by (simp add: description_regex_here_def)
  from a b c d show ?thesis by simp
qed

text \<open>
  What the loop does by design: for a page that has, after a text without \<open>#\<close>, the
  section \<open>## Control\<close> with the text \<open>t\<close> (without \<open>#\<close>) and then the section
  \<open>## Description\<close>, the new content is the template with \<open>t\<close> trimmed and the first line
  of the description trimmed.
\<close>

lemma prettify_control_sections:
  assumes "CHR ''#'' \<notin> set pre" "CHR ''#'' \<notin> set t"
  shows \<open>prettify_control control_id
           (pre @ ''## Control'' @ [nl, nl] @ t @ [nl, nl] @ ''## Description'' @ [nl, nl] @ body) =
         Inr (''# '' @ control_id @ [nl, nl] @
              ''<p style="font-size: 2em">'' @ strip t @ ''</p>'' @ [nl, nl] @
              ''<hr style="height: 0.2em; background-color: #499FFF; border: 0;" />'' @ [nl, nl] @
              strip (takeWhile (\<lambda>c. c \<noteq> nl) body) @ [nl])\<close>
proof -
  have "re_search control_regex_here
      (pre @ ''## Control'' @ [nl, nl] @ t @ [nl, nl] @ CHR ''#'' # (''# Description'' @ [nl, nl] @ body)) = Some t"
    using assms by (rule re_search_control_section)
  then have c: "re_search control_regex_here
      (pre @ ''## Control'' @ [nl, nl] @ t @ [nl, nl] @ ''## Description'' @ [nl, nl] @ body) = Some t"
    by simp
  note d = re_search_description_section [OF assms, of body]
  have hr: \<open>''<hr style="height: 0.2em; background-color: #'' @ MAS_BLUE @ ''; border: 0;" />'' @ r =
      ''<hr style="height: 0.2em; background-color: #499FFF; border: 0;" />'' @ r\<close> for r
    by (simp add: MAS_BLUE_def)
  show ?thesis
    by (simp only: prettify_control_def c d option.case Let_def hr)
qed

text \<open>
  C1. A controls page with a two-line description: the rewritten page keeps the first
  line of the description only, so it is not the template filled with the text of the
  control and the text of the description.
\<close>

theorem prettify_control_drops_description_lines:
  \<open>prettify_control ''MASVS-STORAGE-1'' two_line_control =
     Inr (''# MASVS-STORAGE-1'' @ [nl, nl] @
          ''<p style="font-size: 2em">The app securely stores sensitive data.</p>'' @ [nl, nl] @
          ''<hr style="height: 0.2em; background-color: #499FFF; border: 0;" />'' @ [nl, nl] @
          ''Apps handle sensitive data.'' @ [nl])\<close>
  by (simp add: two_line_control_def prettify_control_def control_regex_here_def description_regex_here_def strip_def is_space_def MAS_BLUE_def nl_def)

section \<open>The file system\<close>

lemma map_of_filter_key:
  "map_of (filter (\<lambda>(q, n). P q) fs) q = (if P q then map_of fs q else None)"
  by (induction fs) auto

lemma map_of_map_const:
  "map_of (map (\<lambda>q. (q, v)) qs) q = (if q \<in> set qs then Some v else None)"
  by (induction qs) auto

lemma set_paths_of: "set (paths_of fs) = {q. q \<noteq> [] \<and> node_at fs q \<noteq> None}"
proof -
  have "node_at fs q \<noteq> None \<longleftrightarrow> q \<in> fst ` set fs" if "q \<noteq> []" for q
    using that by (simp add: node_at_def map_of_eq_None_iff)
  then show ?thesis by (auto simp: paths_of_def)
qed

lemma well_formed_iff:
  "well_formed fs \<longleftrightarrow> (\<forall>q. q \<noteq> [] \<and> node_at fs q \<noteq> None \<longrightarrow> node_at fs (butlast q) = Some Dir)"
  by (auto simp: well_formed_def list_all_iff set_paths_of is_dir_def)

lemma is_file_node_at: "is_file fs q \<longleftrightarrow> (\<exists>c. node_at fs q = Some (File c))"
  by (auto simp: is_file_def split: option.splits node.splits)

lemma not_file_cases: "\<not> is_file fs q \<longleftrightarrow> node_at fs q = None \<or> node_at fs q = Some Dir"
  by (cases "node_at fs q") (auto simp: is_file_node_at intro: node.exhaust)

lemma missing_below:
  assumes "well_formed fs" "node_at fs p = None"
  shows "node_at fs (p @ r) = None"
proof (induction r rule: rev_induct)
  case Nil
  then show ?case using assms(2) by simp
next
  case (snoc x r)
  show ?case
  proof (rule ccontr)
    assume "node_at fs (p @ r @ [x]) \<noteq> None"
    with assms(1) have "node_at fs (butlast (p @ r @ [x])) = Some Dir"
      unfolding well_formed_iff by blast
    then have "node_at fs (p @ r) = Some Dir" by (simp add: butlast_append)
    with snoc show False by simp
  qed
qed

lemma node_at_rmtree:
  assumes "rmtree p fs = Inr fs'"
  shows "node_at fs' q = (if prefix p q \<and> q \<noteq> [] then None else node_at fs q)"
  using assms by (auto simp: rmtree_def node_at_def map_of_filter_key split: if_splits)

lemma rmtree_ok: "is_dir fs p \<Longrightarrow> \<exists>fs'. rmtree p fs = Inr fs'"
  by (simp add: rmtree_def)

lemma mkdir_parents_ok:
  "(\<exists>fs'. mkdir_parents p fs = Inr fs') \<longleftrightarrow> (\<forall>q \<in> set (prefixes p). \<not> is_file fs q)"
  by (auto simp: mkdir_parents_def list_ex_iff)

lemma node_at_mkdir_parents:
  assumes "mkdir_parents p fs = Inr fs'"
  shows "node_at fs' q = (if prefix q p \<and> node_at fs q = None then Some Dir else node_at fs q)"
proof -
  from assms have fs': "fs' = map (\<lambda>q. (q, Dir)) (filter (\<lambda>q. \<not> path_exists fs q) (prefixes p)) @ fs"
    by (auto simp: mkdir_parents_def split: if_splits)
  show ?thesis
  proof (cases "q = []")
    case True
    then show ?thesis by (simp add: node_at_def)
  next
    case False
    then show ?thesis
      unfolding fs' by (auto simp: node_at_def map_add_def map_of_map_const path_exists_def
          in_set_prefixes split: option.splits)
  qed
qed

lemma prefix_butlast: "prefix q (butlast p) \<Longrightarrow> prefix q p"
  by (metis append_butlast_last_id butlast.simps(1) prefix_order.dual_order.trans prefixI)

lemma not_prefix_butlast:
  assumes "prefix d q" "q \<noteq> []"
  shows "\<not> prefix q (butlast d)"
proof
  assume "prefix q (butlast d)"
  then have "length q \<le> length d - 1" using prefix_length_le by fastforce
  moreover from assms(1) have "length d \<le> length q" by (rule prefix_length_le)
  ultimately have "d = []" by (cases d) auto
  with \<open>prefix q (butlast d)\<close> assms(2) show False by simp
qed

lemma well_formed_rmtree:
  assumes "well_formed fs" "rmtree p fs = Inr fs'"
  shows "well_formed fs'"
  unfolding well_formed_iff
proof (intro allI impI)
  fix q assume q: "q \<noteq> [] \<and> node_at fs' q \<noteq> None"
  then have "\<not> prefix p q" and "node_at fs q \<noteq> None"
    using node_at_rmtree [OF assms(2), of q] by (auto split: if_splits)
  then have "\<not> prefix p (butlast q)" and "node_at fs (butlast q) = Some Dir"
    using q assms(1) prefix_butlast unfolding well_formed_iff by blast+
  then show "node_at fs' (butlast q) = Some Dir"
    using node_at_rmtree [OF assms(2), of "butlast q"] by simp
qed

lemma well_formed_mkdir_parents:
  assumes "well_formed fs" "mkdir_parents p fs = Inr fs'"
  shows "well_formed fs'"
  unfolding well_formed_iff
proof (intro allI impI)
  fix q assume q: "q \<noteq> [] \<and> node_at fs' q \<noteq> None"
  note n = node_at_mkdir_parents [OF assms(2)]
  have nofile: "\<not> is_file fs r" if "prefix r p" for r
    using assms(2) mkdir_parents_ok [of p fs] that by (auto simp: in_set_prefixes)
  show "node_at fs' (butlast q) = Some Dir"
  proof (cases "node_at fs q = None")
    case True
    with q have pq: "prefix q p" using n [of q] by (auto split: if_splits)
    then have "prefix (butlast q) p"
      by (meson prefix_order.trans prefixeq_butlast)
    with nofile have "node_at fs (butlast q) = None \<or> node_at fs (butlast q) = Some Dir"
      by (simp add: not_file_cases)
    with \<open>prefix (butlast q) p\<close> show ?thesis using n [of "butlast q"] by auto
  next
    case False
    with q assms(1) have "node_at fs (butlast q) = Some Dir"
      unfolding well_formed_iff by blast
    then show ?thesis using n [of "butlast q"] by simp
  qed
qed

lemma on_files_Inr:
  "on_files f s = Inr s' \<longleftrightarrow> (\<exists>fs'. f (files s) = Inr fs' \<and> s' = s\<lparr>files := fs'\<rparr>)"
  by (cases "f (files s)") (auto simp: on_files_def seq_def)

section \<open>\<open>clean_and_copy\<close>\<close>

text \<open>The first two steps of \<open>clean_and_copy\<close>: the destination is deleted and its parent made.\<close>

lemma clean_destination:
  assumes wf: "well_formed (files s)"
    and nofile: "\<forall>q \<in> set (prefixes destination). \<not> is_file (files s) q"
  shows "\<exists>s2. seq (if path_exists (files s) destination then on_files (rmtree destination) s else Inr s)
                (on_files (mkdir_parents (butlast destination))) = Inr s2 \<and>
           warnings s2 = warnings s \<and> well_formed (files s2) \<and>
           (\<forall>q. node_at (files s2) q =
              (if prefix destination q \<and> q \<noteq> [] then None
               else if prefix q (butlast destination) \<and> node_at (files s) q = None then Some Dir
               else node_at (files s) q))"
proof -
  let ?fs = "files s"
  have dst: "\<not> is_file ?fs destination" using nofile by simp
  obtain fs1 where s1: "(if path_exists ?fs destination then on_files (rmtree destination) s else Inr s) =
      Inr (s\<lparr>files := fs1\<rparr>)"
    and wf1: "well_formed fs1"
    and n1: "\<And>q. node_at fs1 q = (if prefix destination q \<and> q \<noteq> [] then None else node_at ?fs q)"
  proof (cases "path_exists ?fs destination")
    case True
    with dst have "is_dir ?fs destination"
      by (auto simp: path_exists_def is_dir_def not_file_cases)
    then obtain fs1 where r: "rmtree destination ?fs = Inr fs1" using rmtree_ok by blast
    show ?thesis
    proof (rule that [of fs1])
      show "(if path_exists ?fs destination then on_files (rmtree destination) s else Inr s) =
          Inr (s\<lparr>files := fs1\<rparr>)"
        using True r by (simp add: on_files_Inr)
      show "well_formed fs1" using wf r by (rule well_formed_rmtree)
      show "node_at fs1 q = (if prefix destination q \<and> q \<noteq> [] then None else node_at ?fs q)" for q
        using node_at_rmtree [OF r] by simp
    qed
  next
    case False
    then have none: "node_at ?fs destination = None" by (simp add: path_exists_def)
    have "node_at ?fs q = None" if "prefix destination q" for q
      using missing_below [OF wf none] that by (auto simp: prefix_def)
    then show ?thesis
      using False wf by (intro that [of ?fs]) auto
  qed
  have "\<forall>q \<in> set (prefixes (butlast destination)). \<not> is_file fs1 q"
  proof
    fix q assume "q \<in> set (prefixes (butlast destination))"
    then have a: "prefix q (butlast destination)" by (simp add: in_set_prefixes)
    then have b: "prefix q destination" by (rule prefix_butlast)
    show "\<not> is_file fs1 q"
    proof (cases "prefix destination q \<and> q \<noteq> []")
      case True
      then show ?thesis using n1 [of q] by (simp add: not_file_cases)
    next
      case False
      then have "node_at fs1 q = node_at ?fs q" using n1 [of q] by auto
      moreover have "\<not> is_file ?fs q" using nofile b by (simp add: in_set_prefixes)
      ultimately show ?thesis by (simp add: is_file_node_at)
    qed
  qed
  then obtain fs2 where m: "mkdir_parents (butlast destination) fs1 = Inr fs2"
    using mkdir_parents_ok by blast
  have wf2: "well_formed fs2" using wf1 m by (rule well_formed_mkdir_parents)
  have n2: "node_at fs2 q =
      (if prefix destination q \<and> q \<noteq> [] then None
       else if prefix q (butlast destination) \<and> node_at ?fs q = None then Some Dir
       else node_at ?fs q)" for q
  proof (cases "prefix destination q \<and> q \<noteq> []")
    case True
    then have "\<not> prefix q (butlast destination)"
      by (simp add: not_prefix_butlast)
    with True show ?thesis
      using node_at_mkdir_parents [OF m, of q] n1 [of q] by simp
  next
    case False
    then show ?thesis
      using node_at_mkdir_parents [OF m, of q] n1 [of q] by auto
  qed
  have "seq (if path_exists ?fs destination then on_files (rmtree destination) s else Inr s)
      (on_files (mkdir_parents (butlast destination))) = Inr (s\<lparr>files := fs2\<rparr>)"
    unfolding s1 using m by (simp add: seq_def on_files_Inr)
  with wf2 n2 show ?thesis by auto
qed


text \<open>
  C3, as amended. In a well-formed tree, when the source does not exist (and is no
  ancestor of the destination) and no regular file stands at the destination or at one of
  its ancestors, \<open>clean_and_copy\<close> returns: it logs the warning, the destination is a
  directory with nothing below it, and every path that is neither below nor above the
  destination is as before.
\<close>

theorem clean_and_copy_missing_source:
  assumes "well_formed (files s)"
    and "\<not> path_exists (files s) source" and "\<not> prefix source destination"
    and "\<forall>q \<in> set (prefixes destination). \<not> is_file (files s) q"
  shows "\<exists>s'. clean_and_copy source destination s = Inr s' \<and>
           warnings s' = warnings s @ [''Source directory does not exist: '' @ path_str source] \<and>
           well_formed (files s') \<and>
           is_dir (files s') destination \<and>
           (\<forall>q. strict_prefix destination q \<longrightarrow> \<not> path_exists (files s') q) \<and>
           (\<forall>q. \<not> prefix destination q \<and> \<not> prefix q destination \<longrightarrow>
                node_at (files s') q = node_at (files s) q)"
proof -
  let ?msg = "''Source directory does not exist: '' @ path_str source"
  from clean_destination [OF assms(1,4)] obtain s2
    where run2: "seq (if path_exists (files s) destination then on_files (rmtree destination) s else Inr s)
        (on_files (mkdir_parents (butlast destination))) = Inr s2"
      and w2: "warnings s2 = warnings s" and wf2: "well_formed (files s2)"
      and n2: "\<And>q. node_at (files s2) q =
          (if prefix destination q \<and> q \<noteq> [] then None
           else if prefix q (butlast destination) \<and> node_at (files s) q = None then Some Dir
           else node_at (files s) q)"
    by blast
  have "\<not> prefix source (butlast destination)"
    using assms(3) prefix_butlast by blast
  then have src2: "\<not> path_exists (files s2) source"
    using n2 [of source] assms(2) by (simp add: path_exists_def)
  have "\<forall>q \<in> set (prefixes destination). \<not> is_file (files s2) q"
  proof
    fix q assume "q \<in> set (prefixes destination)"
    then have "\<not> is_file (files s) q" using assms(4) by blast
    then show "\<not> is_file (files s2) q"
      using n2 [of q] by (auto simp: not_file_cases)
  qed
  then obtain fs3 where m: "mkdir_parents destination (files s2) = Inr fs3"
    using mkdir_parents_ok by blast
  let ?s' = "(log_warning ?msg s2)\<lparr>files := fs3\<rparr>"
  have f2: "files (log_warning ?msg s2) = files s2" by (simp add: log_warning_def)
  have n3: "node_at fs3 q =
      (if prefix q destination \<and> node_at (files s2) q = None then Some Dir else node_at (files s2) q)" for q
    using m by (rule node_at_mkdir_parents)
  have run: "clean_and_copy source destination s = Inr ?s'"
  proof -
    have "clean_and_copy source destination s =
        seq (seq (if path_exists (files s) destination then on_files (rmtree destination) s else Inr s)
               (on_files (mkdir_parents (butlast destination))))
          (\<lambda>s. if \<not> path_exists (files s) source
                then on_files (mkdir_parents destination) (log_warning ?msg s)
                else on_files (copytree source destination) s)"
      by (simp add: clean_and_copy_def seq_def split: sum.splits)
    also have "\<dots> = on_files (mkdir_parents destination) (log_warning ?msg s2)"
      unfolding run2 using src2 by (simp add: seq_def)
    also have "\<dots> = Inr ?s'"
      using m f2 by (simp add: on_files_Inr)
    finally show ?thesis .
  qed
  have "warnings ?s' = warnings s @ [?msg]" using w2 by (simp add: log_warning_def)
  moreover have "well_formed (files ?s')"
    using well_formed_mkdir_parents [OF wf2 m] by simp
  moreover have "is_dir (files ?s') destination"
    using n3 [of destination] n2 [of destination] by (auto simp: is_dir_def node_at_def)
  moreover have "\<not> path_exists (files ?s') q" if "strict_prefix destination q" for q
  proof -
    from that have "\<not> prefix q destination" "prefix destination q" "q \<noteq> []" by auto
    then show ?thesis using n3 [of q] n2 [of q] by (simp add: path_exists_def)
  qed
  moreover have "node_at (files ?s') q = node_at (files s) q"
    if "\<not> prefix destination q \<and> \<not> prefix q destination" for q
  proof -
    from that have "\<not> prefix q (butlast destination)" using prefix_butlast by blast
    with that show ?thesis using n3 [of q] n2 [of q] by simp
  qed
  ultimately show ?thesis using run by blast
qed


theorem clean_and_copy_missing_source_witness:
  "well_formed (files missing_weaknesses) \<and>
   \<not> path_exists (files missing_weaknesses) [''repos'', ''maswe'', ''weaknesses''] \<and>
   \<not> prefix [''repos'', ''maswe'', ''weaknesses''] [''docs'', ''MASWE''] \<and>
   \<not> list_ex (is_file (files missing_weaknesses)) (prefixes [''docs'', ''MASWE'']) \<and>
   (\<exists>s'. clean_and_copy [''repos'', ''maswe'', ''weaknesses''] [''docs'', ''MASWE''] missing_weaknesses = Inr s' \<and>
      warnings s' = warnings missing_weaknesses @
        [''Source directory does not exist: '' @ path_str [''repos'', ''maswe'', ''weaknesses'']] \<and>
      well_formed (files s') \<and>
      is_dir (files s') [''docs'', ''MASWE''] \<and>
      (\<forall>q. strict_prefix [''docs'', ''MASWE''] q \<longrightarrow> \<not> path_exists (files s') q) \<and>
      (\<forall>q. \<not> prefix [''docs'', ''MASWE''] q \<and> \<not> prefix q [''docs'', ''MASWE''] \<longrightarrow>
           node_at (files s') q = node_at (files missing_weaknesses) q))"
proof -
  have a: "well_formed (files missing_weaknesses)" by code_simp
  have b: "\<not> path_exists (files missing_weaknesses) [''repos'', ''maswe'', ''weaknesses'']" by code_simp
  have c: "\<not> prefix [''repos'', ''maswe'', ''weaknesses''] [''docs'', ''MASWE'']" by simp
  have d: "\<not> list_ex (is_file (files missing_weaknesses)) (prefixes [''docs'', ''MASWE''])" by code_simp
  then have d': "\<forall>q \<in> set (prefixes [''docs'', ''MASWE'']). \<not> is_file (files missing_weaknesses) q"
    by (simp add: list_ex_iff)
  from clean_and_copy_missing_source [OF a b c d'] a b c d show ?thesis by blast
qed

text \<open>
  C3 as stated fails where a regular file stands at the destination: the source is
  missing, and the call raises (\<open>shutil.rmtree\<close> of a regular file).
\<close>

theorem clean_and_copy_blocked_destination:
  "well_formed (files blocked_destination) \<and>
   \<not> path_exists (files blocked_destination) [''repos'', ''maswe'', ''weaknesses''] \<and>
   clean_and_copy [''repos'', ''maswe'', ''weaknesses''] [''docs'', ''MASWE''] blocked_destination =
     Inl (OSError [''docs'', ''MASWE''])"
  by code_simp

section \<open>Steps of the merge\<close>

lemma rebuildsI:
  assumes "\<And>s s'. well_formed (files s) \<Longrightarrow> f s = Inr s' \<Longrightarrow> well_formed (files s')"
    and "\<And>s s' p. well_formed (files s) \<Longrightarrow> f s = Inr s' \<Longrightarrow> \<not> prefix [''docs''] p \<Longrightarrow>
           node_at (files s') p = node_at (files s) p"
    and "\<And>s t s' t' p. well_formed (files s) \<Longrightarrow> well_formed (files t) \<Longrightarrow> agree X (files s) (files t) \<Longrightarrow>
           f s = Inr s' \<Longrightarrow> f t = Inr t' \<Longrightarrow> p \<in> Y \<Longrightarrow> node_at (files s') p = node_at (files t') p"
  shows "rebuilds X Y f"
  unfolding rebuilds_def
proof (intro conjI allI impI)
  fix s s' assume a: "well_formed (files s) \<and> f s = Inr s'"
  then show "well_formed (files s')" using assms(1) by blast
  show "agree outside_docs (files s) (files s')"
    unfolding agree_def outside_docs_def using assms(2) a by auto
next
  fix s t s' t'
  assume "well_formed (files s) \<and> well_formed (files t) \<and> agree X (files s) (files t) \<and>
    f s = Inr s' \<and> f t = Inr t'"
  then show "agree Y (files s') (files t')"
    unfolding agree_def [of Y] using assms(3) by blast
qed













section \<open>The primitive steps\<close>

lemma docs_prefix_nonempty: "prefix [''docs''] p \<Longrightarrow> p \<noteq> []"
  by auto

lemma docs_prefix_trans: "prefix [''docs''] p \<Longrightarrow> prefix p q \<Longrightarrow> prefix [''docs''] q"
  by (rule prefix_order.trans)

lemma on_files_files: "on_files f s = Inr s' \<Longrightarrow> f (files s) = Inr (files s')"
  by (auto simp: on_files_Inr)

lemma rebuilds_rmtree:
  assumes "prefix [''docs''] d"
  shows "rebuilds X (X \<union> tree_at d) (on_files (rmtree d))"
proof (rule rebuildsI)
  fix s s' assume wf: "well_formed (files s)" and r: "on_files (rmtree d) s = Inr s'"
  from r have r': "rmtree d (files s) = Inr (files s')" by (rule on_files_files)
  show "well_formed (files s')" using wf r' by (rule well_formed_rmtree)
  show "node_at (files s') p = node_at (files s) p" if "\<not> prefix [''docs''] p" for p
    using node_at_rmtree [OF r', of p] that assms docs_prefix_trans by auto
next
  fix s t s' t' p
  assume a: "agree X (files s) (files t)"
    and r: "on_files (rmtree d) s = Inr s'" "on_files (rmtree d) t = Inr t'" and p: "p \<in> X \<union> tree_at d"
  from r have r': "rmtree d (files s) = Inr (files s')" "rmtree d (files t) = Inr (files t')"
    by (auto dest: on_files_files)
  show "node_at (files s') p = node_at (files t') p"
  proof (cases "prefix d p \<and> p \<noteq> []")
    case True
    then show ?thesis using node_at_rmtree [OF r'(1), of p] node_at_rmtree [OF r'(2), of p] by simp
  next
    case False
    with p assms have "p \<in> X" by (auto simp: tree_at_def)
    with a have "node_at (files s) p = node_at (files t) p" by (simp add: agree_def)
    with False show ?thesis
      using node_at_rmtree [OF r'(1), of p] node_at_rmtree [OF r'(2), of p] by auto
  qed
qed







section \<open>Listing the tree\<close>












section \<open>Copying and rewriting one file\<close>


























section \<open>Loops over the files of a listing\<close>











section \<open>\<open>copytree\<close>\<close>













section \<open>\<open>clean_and_copy\<close>, again\<close>




section \<open>The blocks of the merge\<close>













section \<open>The three repositories\<close>






section \<open>Two builds in succession\<close>











end
